theory Spec2Isabelle
  imports Main "HOL-Library.Word" "HOL-Library.Signed_Division"
begin

section \<open>cpmadd88: writing a file into a CP/M disk image in .d88 format\<close>

text \<open>
  The development embeds \<^verbatim>\<open>src/cpmadd88.c\<close>.

  \<^item> A byte of a file or of a \<^verbatim>\<open>char\<close> buffer is an \<open>8 word\<close>.
  \<^item> C \<^verbatim>\<open>int\<close> values are Isabelle integers. The four address functions take an
    arbitrary \<^verbatim>\<open>int\<close>, so their result is reduced to the 32-bit two's complement range
    (\<open>int32\<close>); inside \<^verbatim>\<open>write_in\<close> and \<^verbatim>\<open>same_name_check\<close> every counter is bounded
    by the loop bound or by the capacity test (below 2432), so no reduction is needed there.
  \<^item> C's \<^verbatim>\<open>/\<close> and \<^verbatim>\<open>%\<close> truncate towards zero: \<open>sdiv\<close> and \<open>smod\<close>.
  \<^item> Plain \<^verbatim>\<open>char\<close> is signed or unsigned depending on the platform; the only place where
    the program reads a \<^verbatim>\<open>char\<close> as a number is the block scan of \<^verbatim>\<open>same_name_check\<close>,
    which therefore takes the signedness as a parameter.
  \<^item> The content of a file opened with \<^verbatim>\<open>fopen\<close> is a function from byte offsets to
    bytes: the disk image is taken to be a complete image, so that every \<^verbatim>\<open>fread\<close> of
    the directory returns all the bytes asked for. The source file is a list of bytes.
  \<^item> The global variables, the content of the image file and the two counters of
    \<^verbatim>\<open>write_in\<close> form the record \<open>state\<close>, passed through every function.
\<close>

type_synonym byte = "8 word"
type_synonym file_content = "int \<Rightarrow> byte"

subsection \<open>Constants\<close>

definition DATA_BLOCK_SIZE :: int where "DATA_BLOCK_SIZE = 2048"
definition BPS :: int where "BPS = 256"
definition SPT :: int where "SPT = 32"
definition TRACKS :: int where "TRACKS = 40"
definition RPD :: int where "RPD = 16"

definition num_of_FCBs :: int where
  "num_of_FCBs = DATA_BLOCK_SIZE * 2 sdiv 32"

definition num_of_data_blocks :: int where
  "num_of_data_blocks = BPS * SPT * (TRACKS - 2) sdiv DATA_BLOCK_SIZE"

subsection \<open>Addresses\<close>

definition int32 :: "int \<Rightarrow> int" where
  "int32 x = signed_take_bit 31 x"

definition convert_addr :: "int \<Rightarrow> int" where
  "convert_addr addr = int32 (43 * 16 + 16 + addr + 16 * (addr sdiv 256))"

definition head_addr_of_data_block :: "int \<Rightarrow> int" where
  "head_addr_of_data_block block_number =
     int32 (BPS * SPT * 2 + DATA_BLOCK_SIZE * block_number)"

definition head_addr_of_FCB :: "int \<Rightarrow> int" where
  "head_addr_of_FCB FCB_number = int32 (head_addr_of_data_block 0 + 32 * FCB_number)"

definition head_addr_of_record :: "int \<Rightarrow> int" where
  "head_addr_of_record record_number =
     int32 (head_addr_of_data_block (record_number sdiv RPD) + 128 * (record_number smod RPD))"

subsection \<open>Files\<close>

text \<open>\<^verbatim>\<open>fseek\<close> to an offset followed by \<^verbatim>\<open>fread\<close> or \<^verbatim>\<open>fwrite\<close> of \<open>n\<close> bytes.\<close>

definition file_read :: "file_content \<Rightarrow> int \<Rightarrow> nat \<Rightarrow> byte list" where
  "file_read f off n = map (\<lambda>k. f (off + int k)) [0..<n]"

definition file_write :: "file_content \<Rightarrow> int \<Rightarrow> byte list \<Rightarrow> file_content" where
  "file_write f off bs =
     (\<lambda>a. if off \<le> a \<and> a < off + int (length bs) then bs ! nat (a - off) else f a)"

subsection \<open>Program state\<close>

record state =
  image_file :: file_content
  name :: "byte list"
  extension :: "byte list"
  FCB_buff :: "byte list"
  record_buff :: "byte list"
  last_living_block_num :: int
  last_living_FCB_num :: int
  used_FCBs :: int
  written_records :: int

text \<open>The state at program start: the initialisers of the globals, over a given image.\<close>

definition initial_state :: "file_content \<Rightarrow> state" where
  "initial_state img =
     \<lparr>image_file = img,
      name = [0x20, 0x20, 0x20, 0x20, 0x20, 0x20, 0x20, 0x20, 0],
      extension = [0x20, 0x20, 0x20, 0],
      FCB_buff = replicate 32 0,
      record_buff = replicate 128 0,
      last_living_block_num = 1,
      last_living_FCB_num = - 1,
      used_FCBs = 0,
      written_records = 0\<rparr>"

datatype fault = Null_pointer_arithmetic

datatype outcome = Done | NameConflict | CapacityExceeded

text \<open>A filename given on the command line, as the bytes of the C string.\<close>

definition c_string :: "string \<Rightarrow> byte list" where
  "c_string s = map of_char s"

subsection \<open>separate\_name\<close>

definition toupper :: "byte \<Rightarrow> byte" where
  "toupper c = (if 0x61 \<le> c \<and> c \<le> 0x7A then c - 0x20 else c)"

text \<open>\<^verbatim>\<open>strrchr\<close>: the index of the last occurrence, \<open>None\<close> for the null pointer.\<close>

fun strrchr :: "byte list \<Rightarrow> byte \<Rightarrow> nat option" where
  "strrchr [] c = None"
| "strrchr (x # xs) c =
     (case strrchr xs c of
        Some i \<Rightarrow> Some (Suc i)
      | None \<Rightarrow> if x = c then Some 0 else None)"

text \<open>
  When \<^verbatim>\<open>strrchr\<close> returns the null pointer the source adds 1 to it and passes the
  result to \<^verbatim>\<open>strlen\<close>: there is no test, the behaviour is undefined, and the model
  stops with the fault.
\<close>

definition separate_name :: "byte list \<Rightarrow> state \<Rightarrow> fault + state" where
  "separate_name cpm_filename s =
     (case strrchr cpm_filename 0x2E of
        None \<Rightarrow> Inl Null_pointer_arithmetic
      | Some p \<Rightarrow>
          (let ext = drop (p + 1) cpm_filename;
               len = int (length cpm_filename) - int (length ext) - 1;
               s1 = s\<lparr>name := fold (\<lambda>i nm. nm[i := toupper (cpm_filename ! i)])
                                 [0..<nat (if len < 8 then len else 8)] (name s)\<rparr>;
               len' = int (length ext);
               s2 = s1\<lparr>extension := fold (\<lambda>i ex. ex[i := toupper (ext ! i)])
                                 [0..<nat (if len' < 3 then len' else 3)] (extension s1)\<rparr>
           in Inr s2))"

subsection \<open>same\_name\_check\<close>

definition is_name_ext :: "state \<Rightarrow> int" where
  "is_name_ext s =
     (if list_ex (\<lambda>i. FCB_buff s ! i \<noteq> name s ! (i - 1)) [1..<9] then 0
      else if list_ex (\<lambda>i. FCB_buff s ! i \<noteq> extension s ! (i - 9)) [9..<12] then 0
      else 1)"

text \<open>The value of a \<^verbatim>\<open>char\<close> in an integer comparison or assignment.\<close>

definition char_val :: "bool \<Rightarrow> byte \<Rightarrow> int" where
  "char_val signed_char c = (if signed_char then sint c else uint c)"

text \<open>One iteration of the loop over the directory, for slot \<open>i\<close>; \<open>r\<close> is the local.\<close>

definition scan_FCB :: "bool \<Rightarrow> nat \<Rightarrow> state \<times> int \<Rightarrow> state \<times> int" where
  "scan_FCB signed_char i = (\<lambda>(s, r).
     let s1 = s\<lparr>FCB_buff := file_read (image_file s) (convert_addr (head_addr_of_FCB (int i))) 32\<rparr>
     in if FCB_buff s1 ! 0 = 0
        then
          let s2 = s1\<lparr>last_living_FCB_num := int i\<rparr>;
              r' = (if is_name_ext s2 \<noteq> 0 then 1 else r);
              s3 = fold (\<lambda>j t. if last_living_block_num t < char_val signed_char (FCB_buff t ! j)
                                then t\<lparr>last_living_block_num := char_val signed_char (FCB_buff t ! j)\<rparr>
                                else t) [16..<32] s2
          in (s3, r')
        else (s1, r))"

definition same_name_check :: "bool \<Rightarrow> state \<Rightarrow> int \<times> state" where
  "same_name_check signed_char s =
     (let (s', r) = fold (scan_FCB signed_char) [0..<nat num_of_FCBs] (s, 0) in (r, s'))"

subsection \<open>write\_in\<close>

definition init_FCB_buf :: "state \<Rightarrow> state" where
  "init_FCB_buf s =
     s\<lparr>FCB_buff :=
         fold (\<lambda>i b. b[i := 0]) [12..<32]
           (fold (\<lambda>i b. b[i := extension s ! (i - 9)]) [9..<12]
              (fold (\<lambda>i b. b[i := name s ! (i - 1)]) [1..<9]
                 ((FCB_buff s)[0 := 0])))\<rparr>"

definition init_record_buf :: "state \<Rightarrow> state" where
  "init_record_buf s = s\<lparr>record_buff := fold (\<lambda>i b. b[i := 0x1A]) [0..<128] (record_buff s)\<rparr>"

definition save_FCB :: "state \<Rightarrow> int \<Rightarrow> state" where
  "save_FCB s FCB_number =
     s\<lparr>image_file := file_write (image_file s) (convert_addr (head_addr_of_FCB FCB_number))
                       (take 32 (FCB_buff s))\<rparr>"

definition save_record :: "state \<Rightarrow> int \<Rightarrow> state" where
  "save_record s record_number =
     s\<lparr>image_file := file_write (image_file s) (convert_addr (head_addr_of_record record_number))
                       (take 128 (record_buff s))\<rparr>"

text \<open>
  The body of the \<^verbatim>\<open>while\<close> loop, after an \<^verbatim>\<open>fread\<close> that returned the bytes \<open>got\<close>
  (between 1 and 128 of them) into the front of the record buffer. \<open>None\<close> is the
  early \<^verbatim>\<open>return\<close> after "Not enough capacity".
\<close>

definition loop_body :: "byte list \<Rightarrow> state \<Rightarrow> state option" where
  "loop_body got s =
     (let s0 = s\<lparr>record_buff := got @ drop (length got) (record_buff s)\<rparr>
      in if last_living_FCB_num s0 + used_FCBs s0 \<ge> num_of_FCBs
            \<or> RPD * (last_living_block_num s0 + 1) + written_records s0 \<ge> RPD * num_of_data_blocks
         then None
         else
           let s1 = save_record s0 (RPD * (last_living_block_num s0 + 1) + written_records s0);
               s2 = s1\<lparr>written_records := written_records s1 + 1\<rparr>;
               s3 = s2\<lparr>FCB_buff := (FCB_buff s2)[12 := word_of_int (used_FCBs s2)]\<rparr>;
               s4 = s3\<lparr>FCB_buff := (FCB_buff s3)[15 :=
                          word_of_int (if written_records s3 smod 128 \<noteq> 0
                                       then written_records s3 smod 128 else 0x80)]\<rparr>;
               written_blocks = written_records s4 sdiv RPD
                                 + (if written_records s4 smod RPD \<noteq> 0 then 1 else 0);
               offset = (16 + written_blocks - 1) smod 16;
               s5 = s4\<lparr>FCB_buff := (FCB_buff s4)[nat (16 + offset) :=
                          word_of_int (last_living_block_num s4 + written_blocks)]\<rparr>;
               s6 = (if written_records s5 smod 128 = 0
                     then s5\<lparr>used_FCBs := used_FCBs s5 + 1\<rparr> else s5);
               s7 = (if written_records s6 = BPS
                     then init_FCB_buf
                            (save_FCB s6 (last_living_FCB_num s6 + 1 + used_FCBs s6 smod 2))
                     else s6)
           in Some (init_record_buf s7))"

text \<open>
  The loop: \<open>rest\<close> is what the source file holds from the read position on;
  \<^verbatim>\<open>fread\<close> takes up to 128 bytes and the loop ends when it takes none. The flag tells
  whether the loop ran to the end of the file.
\<close>

function write_loop :: "byte list \<Rightarrow> state \<Rightarrow> bool \<times> state" where
  "write_loop rest s =
     (if take 128 rest = [] then (True, s)
      else (case loop_body (take 128 rest) s of
              None \<Rightarrow> (False, s\<lparr>record_buff := take 128 rest @ drop (length (take 128 rest)) (record_buff s)\<rparr>)
            | Some s' \<Rightarrow> write_loop (drop 128 rest) s'))"
  by pat_completeness auto
termination
  by (relation "measure (\<lambda>(rest, s). length rest)") auto

declare write_loop.simps [simp del]

definition write_in :: "bool \<Rightarrow> byte list \<Rightarrow> byte list \<Rightarrow> state \<Rightarrow> fault + outcome \<times> state" where
  "write_in signed_char cpm_filename src s =
     (case separate_name cpm_filename s of
        Inl f \<Rightarrow> Inl f
      | Inr s1 \<Rightarrow>
          (let (r, s2) = same_name_check signed_char s1
           in if r \<noteq> 0 then Inr (NameConflict, s2)
              else
                let s3 = s2\<lparr>used_FCBs := 0, written_records := 0\<rparr>;
                    s4 = init_record_buf (init_FCB_buf s3)
                in case write_loop src s4 of
                     (False, s5) \<Rightarrow> Inr (CapacityExceeded, s5)
                   | (True, s5) \<Rightarrow>
                       Inr (Done, save_FCB s5 (last_living_FCB_num s5 + 1 + used_FCBs s5 smod 2))))"

text \<open>\<^verbatim>\<open>main\<close> with two arguments: \<^verbatim>\<open>write_in\<close> from the initial globals.\<close>

definition main :: "bool \<Rightarrow> file_content \<Rightarrow> byte list \<Rightarrow> byte list \<Rightarrow> fault + outcome \<times> state" where
  "main signed_char img cpm_filename src = write_in signed_char cpm_filename src (initial_state img)"

subsection \<open>Notions used to state the properties\<close>

text \<open>
  The address translation in the words of the specification: a fixed preamble, and a
  header in front of every sector of the container.
\<close>

definition PREAMBLE_SIZE :: int where "PREAMBLE_SIZE = 43 * 16"
definition HEADER_SIZE :: int where "HEADER_SIZE = 16"
definition SECTOR_SIZE :: int where "SECTOR_SIZE = 256"

definition translate :: "int \<Rightarrow> int" where
  "translate logicalAddr =
     PREAMBLE_SIZE + HEADER_SIZE + logicalAddr + HEADER_SIZE * (logicalAddr div SECTOR_SIZE)"

text \<open>The 32 bytes of directory slot \<open>i\<close> of an image, and the 128 bytes of record \<open>r\<close>.\<close>

definition directory_entry :: "file_content \<Rightarrow> int \<Rightarrow> byte list" where
  "directory_entry img i = file_read img (convert_addr (head_addr_of_FCB i)) 32"

definition record_at :: "file_content \<Rightarrow> int \<Rightarrow> byte list" where
  "record_at img r = file_read img (convert_addr (head_addr_of_record r)) 128"

text \<open>A slot is live when its status byte is 0; the name test of \<open>is_name_ext\<close> on an entry.\<close>

definition live :: "file_content \<Rightarrow> int \<Rightarrow> bool" where
  "live img i = (directory_entry img i ! 0 = 0)"

definition names_match :: "byte list \<Rightarrow> byte list \<Rightarrow> byte list \<Rightarrow> bool" where
  "names_match e nm ex =
     (\<not> list_ex (\<lambda>i. e ! i \<noteq> nm ! (i - 1)) [1..<9] \<and> \<not> list_ex (\<lambda>i. e ! i \<noteq> ex ! (i - 9)) [9..<12])"

text \<open>
  What the scan of the first \<open>n\<close> slots leaves in its three variables, as functions of
  the image: the last live slot, the largest block value met, the duplicate flag.
\<close>

definition entry_max_block :: "bool \<Rightarrow> byte list \<Rightarrow> int \<Rightarrow> int" where
  "entry_max_block signed_char e b = fold (\<lambda>j b. max b (char_val signed_char (e ! j))) [16..<32] b"

primrec scan_last_live :: "file_content \<Rightarrow> nat \<Rightarrow> int \<Rightarrow> int" where
  "scan_last_live img 0 d = d"
| "scan_last_live img (Suc n) d = (if live img (int n) then int n else scan_last_live img n d)"

primrec scan_max_block :: "bool \<Rightarrow> file_content \<Rightarrow> nat \<Rightarrow> int \<Rightarrow> int" where
  "scan_max_block signed_char img 0 b = b"
| "scan_max_block signed_char img (Suc n) b =
     (if live img (int n)
      then entry_max_block signed_char (directory_entry img (int n)) (scan_max_block signed_char img n b)
      else scan_max_block signed_char img n b)"

primrec scan_dup :: "file_content \<Rightarrow> byte list \<Rightarrow> byte list \<Rightarrow> nat \<Rightarrow> int \<Rightarrow> int" where
  "scan_dup img nm ex 0 r = r"
| "scan_dup img nm ex (Suc n) r =
     (if live img (int n) \<and> names_match (directory_entry img (int n)) nm ex then 1
      else scan_dup img nm ex n r)"

text \<open>Images used as concrete inputs: a formatted empty disk, every byte 0xE5.\<close>

definition blank_image :: file_content where
  "blank_image = (\<lambda>a. 0xE5)"

text \<open>
  An image whose slot 0 is live and names block 128 (byte 0x80) sixteen times; every
  other slot has status byte 0x80 and is not live. Container offset 18112 is the first
  byte of slot 0.
\<close>

definition high_block_image :: file_content where
  "high_block_image = (\<lambda>a. if a = 18112 then 0 else 0x80)"

text \<open>An image whose slot 0 is a live entry of the file \<^verbatim>\<open>AAAAAAAA.AAA\<close>.\<close>

definition one_file_image :: file_content where
  "one_file_image = (\<lambda>a. if a = 18112 then 0 else 0x41)"

text \<open>
  A formatted disk whose last directory slot, slot 127 at container offset 22416, holds the
  live entry of the one-record file \<^verbatim>\<open>Z.Z\<close> in block 2; every other byte is 0xE5.
\<close>

definition last_slot_entry :: "byte list" where
  "last_slot_entry =
     [0, 0x5A, 0x20, 0x20, 0x20, 0x20, 0x20, 0x20, 0x20, 0x5A, 0x20, 0x20, 0, 0, 0, 1,
      2, 0, 0, 0, 0, 0, 0, 0, 0, 0, 0, 0, 0, 0, 0, 0]"

definition last_slot_image :: file_content where
  "last_slot_image =
     (\<lambda>a. if 22416 \<le> a \<and> a < 22448 then last_slot_entry ! nat (a - 22416) else 0xE5)"

text \<open>
  The values, read as the platform reads a \<^verbatim>\<open>char\<close>, of the 16 allocation-map bytes of
  every live slot among the first \<open>n\<close>.
\<close>

definition live_block_values :: "bool \<Rightarrow> file_content \<Rightarrow> nat \<Rightarrow> int set" where
  "live_block_values signed_char img n =
     (\<Union>i\<in>{i. i < n \<and> live img (int i)}.
        (\<lambda>j. char_val signed_char (directory_entry img (int i) ! j)) ` {16..<32})"

text \<open>
  A directory entry given by its fields: status 0, the first 8 bytes of the name buffer,
  the first 3 of the extension buffer, the extent byte, two zero bytes, the record-count
  byte and the 16 bytes of the allocation map. \<open>block_map B k\<close> is the map that names
  the \<open>k\<close> blocks after block \<open>B\<close> and is zero from there on.
\<close>

definition entry_byte ::
    "byte list \<Rightarrow> byte list \<Rightarrow> int \<Rightarrow> int \<Rightarrow> (nat \<Rightarrow> byte) \<Rightarrow> nat \<Rightarrow> byte" where
  "entry_byte nm ex e rc am k =
     (if k = 0 then 0
      else if k < 9 then nm ! (k - 1)
      else if k < 12 then ex ! (k - 9)
      else if k = 12 then word_of_int e
      else if k = 15 then word_of_int rc
      else if k < 16 then 0
      else am (k - 16))"

definition make_entry ::
    "byte list \<Rightarrow> byte list \<Rightarrow> int \<Rightarrow> int \<Rightarrow> (nat \<Rightarrow> byte) \<Rightarrow> byte list" where
  "make_entry nm ex e rc am = map (entry_byte nm ex e rc am) [0..<32]"

definition block_map :: "int \<Rightarrow> int \<Rightarrow> nat \<Rightarrow> byte" where
  "block_map B k j = (if int j < k then word_of_int (B + 1 + int j) else 0)"

text \<open>
  The content of the record buffer after the \<open>n\<close>-th \<^verbatim>\<open>fread\<close> (counted from 0): the
  next 128 bytes of the source, or what is left of it followed by the fill byte 0x1A.
\<close>

definition chunk :: "byte list \<Rightarrow> nat \<Rightarrow> byte list" where
  "chunk src n =
     take 128 (drop (128 * n) src) @ replicate (128 - length (take 128 (drop (128 * n) src))) 0x1A"

text \<open>The image after the first \<open>n\<close> records of the source were stored behind block \<open>B\<close>.\<close>

primrec put_records :: "int \<Rightarrow> byte list \<Rightarrow> nat \<Rightarrow> file_content \<Rightarrow> file_content" where
  "put_records B src 0 img = img"
| "put_records B src (Suc n) img =
     file_write (put_records B src n img)
       (convert_addr (head_addr_of_record (RPD * (B + 1) + int n))) (chunk src n)"

text \<open>
  The state in which \<open>write_in\<close> enters its loop, for a filename with a separator, and
  the results of the scan in the names of the specification.
\<close>

definition before_loop :: "bool \<Rightarrow> file_content \<Rightarrow> byte list \<Rightarrow> state" where
  "before_loop signed_char img cpm_filename =
     (let s2 = snd (same_name_check signed_char (projr (separate_name cpm_filename (initial_state img))))
      in init_record_buf (init_FCB_buf (s2\<lparr>used_FCBs := 0, written_records := 0\<rparr>)))"

definition duplicateFound :: "bool \<Rightarrow> file_content \<Rightarrow> byte list \<Rightarrow> bool" where
  "duplicateFound signed_char img cpm_filename =
     (fst (same_name_check signed_char (projr (separate_name cpm_filename (initial_state img)))) \<noteq> 0)"

definition lastLiveEntryIndex :: "bool \<Rightarrow> file_content \<Rightarrow> byte list \<Rightarrow> int" where
  "lastLiveEntryIndex signed_char img cpm_filename =
     last_living_FCB_num (before_loop signed_char img cpm_filename)"

definition lastUsedBlock :: "bool \<Rightarrow> file_content \<Rightarrow> byte list \<Rightarrow> int" where
  "lastUsedBlock signed_char img cpm_filename =
     last_living_block_num (before_loop signed_char img cpm_filename)"

text \<open>What a run reports, and the image file it leaves.\<close>

definition final_outcome :: "fault + outcome \<times> state \<Rightarrow> fault + outcome" where
  "final_outcome r = map_sum id fst r"

definition final_image :: "fault + outcome \<times> state \<Rightarrow> file_content" where
  "final_image r = image_file (snd (projr r))"

text \<open>The directory slots whose 32 bytes differ between two images.\<close>

definition changed_entries :: "file_content \<Rightarrow> file_content \<Rightarrow> nat list" where
  "changed_entries img img' =
     filter (\<lambda>i. directory_entry img' (int i) \<noteq> directory_entry img (int i)) [0..<nat num_of_FCBs]"

text \<open>
  The entry buffer and the whole state after \<open>n\<close> passes through the loop, for \<open>n\<close>
  below 256; \<open>F\<close> and \<open>B\<close> are the last live slot and the last used block of the scan.
\<close>

definition fcb_after :: "byte list \<Rightarrow> byte list \<Rightarrow> int \<Rightarrow> nat \<Rightarrow> byte list" where
  "fcb_after nm ex B n =
     (if n = 0 then make_entry nm ex 0 0 (block_map B 0)
      else make_entry nm ex ((int n - 1) div 128)
             (if int n mod 128 = 0 then 128 else int n mod 128)
             (block_map B ((int n + 15) div 16)))"

definition loop_state ::
    "file_content \<Rightarrow> byte list \<Rightarrow> byte list \<Rightarrow> int \<Rightarrow> int \<Rightarrow> byte list \<Rightarrow> nat \<Rightarrow> state" where
  "loop_state img nm ex F B src n =
     \<lparr>image_file = put_records B src n img,
      name = nm,
      extension = ex,
      FCB_buff = fcb_after nm ex B n,
      record_buff = replicate 128 0x1A,
      last_living_block_num = B,
      last_living_FCB_num = F,
      used_FCBs = int n div 128,
      written_records = int n\<rparr>"

text \<open>
  The state after the 256th pass: the full entry has gone to slot \<open>F + 1\<close> and the
  buffer is initialised again.
\<close>

definition state_after_256 ::
    "file_content \<Rightarrow> byte list \<Rightarrow> byte list \<Rightarrow> int \<Rightarrow> int \<Rightarrow> byte list \<Rightarrow> state" where
  "state_after_256 img nm ex F B src =
     \<lparr>image_file = file_write (put_records B src 256 img)
                     (convert_addr (head_addr_of_FCB (F + 1))) (fcb_after nm ex B 256),
      name = nm,
      extension = ex,
      FCB_buff = make_entry nm ex 0 0 (block_map B 0),
      record_buff = replicate 128 0x1A,
      last_living_block_num = B,
      last_living_FCB_num = F,
      used_FCBs = 2,
      written_records = 256\<rparr>"

text \<open>Source files used as concrete inputs.\<close>

definition bytes_16384 :: "byte list" where
  "bytes_16384 = replicate 16384 0x41"

definition bytes_16385 :: "byte list" where
  "bytes_16385 = replicate 16385 0x41"

definition bytes_32768 :: "byte list" where
  "bytes_32768 = replicate 32768 0x41"

definition bytes_32769 :: "byte list" where
  "bytes_32769 = replicate 32769 0x41"

text \<open>
  The state after the 257th pass: one more record on the disk, and in the buffer, which was
  initialised after the 256th, extent byte 2, record count 1 and one block number.
\<close>

definition state_after_257 ::
    "file_content \<Rightarrow> byte list \<Rightarrow> byte list \<Rightarrow> int \<Rightarrow> int \<Rightarrow> byte list \<Rightarrow> state" where
  "state_after_257 img nm ex F B src =
     \<lparr>image_file = file_write (image_file (state_after_256 img nm ex F B src))
                     (convert_addr (head_addr_of_record (RPD * (B + 1) + 256))) (chunk src 256),
      name = nm,
      extension = ex,
      FCB_buff = make_entry nm ex 2 1 ((\<lambda>j. 0)(0 := word_of_int (B + 17))),
      record_buff = replicate 128 0x1A,
      last_living_block_num = B,
      last_living_FCB_num = F,
      used_FCBs = 2,
      written_records = 257\<rparr>"

section \<open>Arithmetic of the address functions\<close>

lemma num_of_FCBs_eq: "num_of_FCBs = 128"
  by (simp add: num_of_FCBs_def DATA_BLOCK_SIZE_def)

lemma num_of_data_blocks_eq: "num_of_data_blocks = 152"
  by (simp add: num_of_data_blocks_def DATA_BLOCK_SIZE_def BPS_def SPT_def TRACKS_def)

lemma int32_id: "- 2147483648 \<le> x \<Longrightarrow> x < 2147483648 \<Longrightarrow> int32 x = x"
  unfolding int32_def by (rule signed_take_bit_int_eq_self) simp_all

lemma sdiv_nonneg: "0 \<le> a \<Longrightarrow> 0 < b \<Longrightarrow> a sdiv b = a div (b::int)"
  by (simp add: signed_divide_int_def sgn_if)

lemma smod_nonneg: "0 \<le> a \<Longrightarrow> 0 < b \<Longrightarrow> a smod b = a mod (b::int)"
  by (simp add: signed_modulo_int_def sgn_if)

lemma convert_addr_eq:
  assumes "0 \<le> addr" "addr \<le> 2021160431"
  shows "convert_addr addr = 704 + addr + 16 * (addr div 256)"
proof -
  have "addr div 256 \<le> 2021160431 div 256"
    using assms(2) by (rule zdiv_mono1) simp
  then have q: "addr div 256 \<le> 7895157" by simp
  have q0: "0 \<le> addr div 256" using assms(1) by simp
  have "int32 (704 + addr + 16 * (addr div 256)) = 704 + addr + 16 * (addr div 256)"
    using q q0 assms by (intro int32_id) linarith+
  then show ?thesis using assms unfolding convert_addr_def by (simp add: sdiv_nonneg)
qed

text \<open>One past the bound the sum no longer fits a 32-bit \<^verbatim>\<open>int\<close>.\<close>

lemma convert_addr_overflow: "convert_addr 2021160432 = - 2147483648"
  by (simp add: convert_addr_def int32_def signed_take_bit_eq_take_bit_shift)

lemma head_addr_of_data_block_0: "head_addr_of_data_block 0 = 16384"
  by (simp add: head_addr_of_data_block_def BPS_def SPT_def DATA_BLOCK_SIZE_def int32_id)

lemma head_addr_of_FCB_eq:
  "0 \<le> n \<Longrightarrow> n \<le> 4096 \<Longrightarrow> head_addr_of_FCB n = 16384 + 32 * n"
  by (simp add: head_addr_of_FCB_def head_addr_of_data_block_0 int32_id)

lemma div_256_of_FCB: "(16384 + 32 * n) div 256 = 64 + n div (8::int)"
proof -
  have "16384 + 32 * n = 32 * (n + 64 * 8)" by simp
  also have "\<dots> div 256 = (n + 64 * 8) div 8"
    using div_mult_mult1 [of 32 "n + 64 * 8" 8] by simp
  also have "\<dots> = 64 + n div 8" by simp
  finally show ?thesis .
qed

lemma div_256_of_record: "(16384 + 128 * r) div 256 = 64 + r div (2::int)"
proof -
  have "16384 + 128 * r = 128 * (r + 64 * 2)" by simp
  also have "\<dots> div 256 = (r + 64 * 2) div 2"
    using div_mult_mult1 [of 128 "r + 64 * 2" 2] by simp
  also have "\<dots> = 64 + r div 2" by simp
  finally show ?thesis .
qed

lemma block_and_record_part: "2048 * (r div 16) + 128 * (r mod 16) = 128 * (r::int)"
proof -
  have "r mod 16 = r - 16 * (r div 16)" by (simp add: minus_mult_div_eq_mod)
  then show ?thesis by simp
qed

lemma FCB_offset:
  assumes "0 \<le> n" "n \<le> 4096"
  shows "convert_addr (head_addr_of_FCB n) = 18112 + 32 * n + 16 * (n div 8)"
  using assms by (simp add: head_addr_of_FCB_eq convert_addr_eq div_256_of_FCB)

lemma head_addr_of_record_eq:
  assumes "0 \<le> r" "r \<le> 4096"
  shows "head_addr_of_record r = 16384 + 128 * r"
proof -
  have "r div 16 \<le> 4096 div 16" using assms(2) by (rule zdiv_mono1) simp
  then have d: "r div 16 \<le> 256" by simp
  have d0: "0 \<le> r div 16" using assms(1) by simp
  have b: "head_addr_of_data_block (r div 16) = 16384 + 2048 * (r div 16)"
    using d d0
    by (simp add: head_addr_of_data_block_def BPS_def SPT_def DATA_BLOCK_SIZE_def int32_id)
  have "int32 (16384 + 128 * r) = 16384 + 128 * r"
    using assms by (intro int32_id) linarith+
  then show ?thesis using assms block_and_record_part [of r]
    by (simp add: head_addr_of_record_def RPD_def sdiv_nonneg smod_nonneg b add.assoc)
qed

lemma record_offset:
  assumes "0 \<le> r" "r \<le> 4096"
  shows "convert_addr (head_addr_of_record r) = 18112 + 128 * r + 16 * (r div 2)"
  using assms by (simp add: head_addr_of_record_eq convert_addr_eq div_256_of_record)

section \<open>Address translation\<close>

lemma disk_addresses_fit:
  assumes "0 \<le> addr" "addr < BPS * SPT * TRACKS"
  shows "translate addr \<le> 2147483647"
proof -
  have "addr div 256 \<le> 327680 div 256"
    using assms(2) by (intro zdiv_mono1) (simp_all add: BPS_def SPT_def TRACKS_def)
  then show ?thesis
    using assms
    by (simp add: translate_def PREAMBLE_SIZE_def HEADER_SIZE_def SECTOR_SIZE_def BPS_def SPT_def
        TRACKS_def)
qed

text \<open>
  Claim C8. For every logical disk address from 0 on, \<open>convert_addr\<close> returns the
  preamble size plus the header size plus the address plus one header size for every
  complete sector of 256 bytes below the address, in exact integer arithmetic, with header
  size 16 and sector size 256. The one condition is that of every C function that returns
  an \<^verbatim>\<open>int\<close>: the value must fit 32 bits. It does for every address of the disk
  (\<open>disk_addresses_fit\<close>), and up to address 2021160431 (\<open>convert_addr_eq\<close>,
  \<open>convert_addr_overflow\<close>).
\<close>

theorem convert_addr_translate:
  assumes "0 \<le> addr" and "translate addr \<le> 2147483647"
  shows "convert_addr addr = translate addr \<and> HEADER_SIZE = 16 \<and> SECTOR_SIZE = 256"
proof -
  have t: "translate addr = 43 * 16 + 16 + addr + 16 * (addr div 256)"
    by (simp add: translate_def PREAMBLE_SIZE_def HEADER_SIZE_def SECTOR_SIZE_def)
  have "0 \<le> addr div 256" using assms(1) by simp
  then have "- 2147483648 \<le> translate addr" using assms(1) unfolding t by linarith
  then have "int32 (translate addr) = translate addr"
    using assms(2) by (intro int32_id) simp_all
  then have "convert_addr addr = translate addr"
    using assms(1) unfolding t convert_addr_def by (simp add: sdiv_nonneg)
  then show ?thesis by (simp add: HEADER_SIZE_def SECTOR_SIZE_def)
qed

theorem convert_addr_translate_witness:
  "(0::int) \<le> 20480 \<and> translate 20480 \<le> 2147483647 \<and> convert_addr 20480 = 22464
     \<and> translate 20480 = 22464"
proof -
  have t: "translate 20480 = 22464"
    by (simp add: translate_def PREAMBLE_SIZE_def HEADER_SIZE_def SECTOR_SIZE_def)
  then have "translate 20480 \<le> 2147483647" by simp
  with convert_addr_translate [of 20480] t show ?thesis by simp
qed

section \<open>Name encoding\<close>

lemma strrchr_None: "strrchr xs c = None \<longleftrightarrow> c \<notin> set xs"
  by (induction xs) (auto split: option.splits)

lemma separate_name_no_dot:
  "0x2E \<notin> set cpm_filename \<Longrightarrow> separate_name cpm_filename s = Inl Null_pointer_arithmetic"
  using strrchr_None [of cpm_filename "0x2E"] by (simp add: separate_name_def)

lemma main_no_dot:
  "0x2E \<notin> set cpm_filename \<Longrightarrow> main sc img cpm_filename src = Inl Null_pointer_arithmetic"
  by (simp add: main_def write_in_def separate_name_no_dot)

text \<open>
  Claim C7. A host filename without the extension separator is to be refused with an
  InvalidFilename error. The program has no such error: for the filename \<^verbatim>\<open>README\<close>
  \<^verbatim>\<open>strrchr\<close> returns the null pointer, \<open>separate_name\<close> computes with it, and the run
  ends in that fault whatever the image and the source file are.
\<close>

theorem separate_name_README:
  "separate_name (c_string ''README'') (initial_state img) = Inl Null_pointer_arithmetic
   \<and> main sc img (c_string ''README'') src = Inl Null_pointer_arithmetic"
  by (simp add: main_no_dot separate_name_no_dot c_string_def)

section \<open>The directory scan\<close>

lemma block_fold:
  "fold (\<lambda>j t. if last_living_block_num t < char_val sc (FCB_buff t ! j)
               then t\<lparr>last_living_block_num := char_val sc (FCB_buff t ! j)\<rparr> else t) js t
   = t\<lparr>last_living_block_num :=
         fold (\<lambda>j b. max b (char_val sc (FCB_buff t ! j))) js (last_living_block_num t)\<rparr>"
proof (induction js arbitrary: t)
  case Nil
  show ?case by simp
next
  case (Cons j js)
  show ?case
  proof (cases "last_living_block_num t < char_val sc (FCB_buff t ! j)")
    case True
    then show ?thesis by (simp add: Cons.IH max_def)
  next
    case False
    then show ?thesis by (simp add: Cons.IH max_def)
  qed
qed

lemma is_name_ext_iff: "is_name_ext s \<noteq> 0 \<longleftrightarrow> names_match (FCB_buff s) (name s) (extension s)"
  by (simp only: is_name_ext_def names_match_def) simp

lemma scan_FCB_eq:
  "scan_FCB sc i (s, r) =
     (let e = directory_entry (image_file s) (int i)
      in if e ! 0 = 0
         then (s\<lparr>FCB_buff := e, last_living_FCB_num := int i,
                 last_living_block_num := entry_max_block sc e (last_living_block_num s)\<rparr>,
               if names_match e (name s) (extension s) then 1 else r)
         else (s\<lparr>FCB_buff := e\<rparr>, r))"
  by (simp add: scan_FCB_def Let_def block_fold is_name_ext_iff directory_entry_def
      entry_max_block_def del: upt_rec_numeral fold_simps)

lemma scan_fold:
  "fold (scan_FCB sc) [0..<n] (s, r) =
     (s\<lparr>FCB_buff := (if n = 0 then FCB_buff s else directory_entry (image_file s) (int (n - 1))),
        last_living_FCB_num := scan_last_live (image_file s) n (last_living_FCB_num s),
        last_living_block_num := scan_max_block sc (image_file s) n (last_living_block_num s)\<rparr>,
      scan_dup (image_file s) (name s) (extension s) n r)"
proof (induction n)
  case 0
  show ?case by simp
next
  case (Suc n)
  show ?case
    by (simp only: upt_Suc_append [OF le0] fold_append o_apply Suc.IH fold_simps scan_FCB_eq)
       (simp add: Let_def live_def)
qed

lemma same_name_check_eq:
  "same_name_check sc s =
     (scan_dup (image_file s) (name s) (extension s) 128 0,
      s\<lparr>FCB_buff := directory_entry (image_file s) 127,
        last_living_FCB_num := scan_last_live (image_file s) 128 (last_living_FCB_num s),
        last_living_block_num := scan_max_block sc (image_file s) 128 (last_living_block_num s)\<rparr>)"
  by (simp add: same_name_check_def num_of_FCBs_eq scan_fold del: upt_rec_numeral)

lemma length_fold_update: "length (fold (\<lambda>i b. b[i := f i]) js b) = length b"
  by (induction js arbitrary: b) simp_all

lemma separate_name_Inr:
  assumes "separate_name fn s = Inr s1"
  shows "s1 = s\<lparr>name := name s1, extension := extension s1\<rparr> \<and> length (name s1) = length (name s)
           \<and> length (extension s1) = length (extension s)"
proof (cases "strrchr fn 0x2E")
  case None
  with assms show ?thesis by (simp add: separate_name_def)
next
  case (Some p)
  with assms show ?thesis
    by (auto simp add: separate_name_def Let_def length_fold_update)
qed

lemma length_directory_entry: "length (directory_entry img i) = 32"
  by (simp add: directory_entry_def file_read_def)

lemma names_matchI:
  assumes e: "length e = 32" and nm: "8 \<le> length nm" and ex: "3 \<le> length ex"
    and n: "take 8 (drop 1 e) = take 8 nm" and x: "take 3 (drop 9 e) = take 3 ex"
  shows "names_match e nm ex"
proof -
  have a: "e ! i = nm ! (i - 1)" if "1 \<le> i" "i < 9" for i
  proof -
    have "take 8 (drop 1 e) ! (i - 1) = take 8 nm ! (i - 1)" by (simp only: n)
    then show ?thesis using that e nm by simp
  qed
  have b: "e ! i = ex ! (i - 9)" if "9 \<le> i" "i < 12" for i
  proof -
    have "take 3 (drop 9 e) ! (i - 9) = take 3 ex ! (i - 9)" by (simp only: x)
    then show ?thesis using that e ex by simp
  qed
  show ?thesis
    unfolding names_match_def list_ex_iff using a b by auto
qed

lemma scan_dup_found:
  "i < n \<Longrightarrow> live img (int i) \<Longrightarrow> names_match (directory_entry img (int i)) nm ex
     \<Longrightarrow> scan_dup img nm ex n r = 1"
proof (induction n)
  case 0
  then show ?case by simp
next
  case (Suc n)
  then show ?case by (cases "i = n") (auto simp: less_Suc_eq)
qed

lemma scan_dup_none:
  "(\<And>i. i < n \<Longrightarrow> live img (int i) \<Longrightarrow> \<not> names_match (directory_entry img (int i)) nm ex)
     \<Longrightarrow> scan_dup img nm ex n r = r"
  by (induction n) auto

lemma scan_last_live_none:
  "(\<And>i. i < n \<Longrightarrow> \<not> live img (int i)) \<Longrightarrow> scan_last_live img n d = d"
  by (induction n) auto

lemma scan_max_block_none:
  "(\<And>i. i < n \<Longrightarrow> \<not> live img (int i)) \<Longrightarrow> scan_max_block sc img n b = b"
  by (induction n) auto

text \<open>
  Claim C4. When the directory holds a live entry whose name and extension bytes are those
  of the normalised target, the write is refused with NameConflict and the image file is
  left as it was, byte for byte.
\<close>

theorem name_conflict_no_write:
  assumes s1: "separate_name fn (initial_state img) = Inr s1"
    and i: "0 \<le> i" "i < 128" and l: "live img i"
    and n: "take 8 (drop 1 (directory_entry img i)) = take 8 (name s1)"
    and x: "take 3 (drop 9 (directory_entry img i)) = take 3 (extension s1)"
  shows "\<exists>s'. main sc img fn src = Inr (NameConflict, s') \<and> image_file s' = img"
proof -
  from separate_name_Inr [OF s1] have
    eq: "s1 = (initial_state img)\<lparr>name := name s1, extension := extension s1\<rparr>"
    and len: "length (name s1) = 9" "length (extension s1) = 4"
    by (simp_all add: initial_state_def)
  have img: "image_file s1 = img"
    by (subst eq) (simp add: initial_state_def)
  have m: "names_match (directory_entry img i) (name s1) (extension s1)"
    using n x len by (intro names_matchI) (simp_all add: length_directory_entry)
  have "nat i < 128" "int (nat i) = i" using i by simp_all
  with l m have "scan_dup img (name s1) (extension s1) 128 0 = 1"
    using scan_dup_found [of "nat i" 128 img "name s1" "extension s1" 0] by simp
  then obtain s2 where "same_name_check sc s1 = (1, s2)" and "image_file s2 = img"
    by (simp add: same_name_check_eq img)
  then show ?thesis
    by (simp add: main_def write_in_def s1)
qed

theorem name_conflict_no_write_witness:
  "live one_file_image 0
   \<and> (\<exists>s'. main True one_file_image (c_string ''aaaaaaaa.aaa'') [0x31, 0x32] = Inr (NameConflict, s')
          \<and> image_file s' = one_file_image)"
proof -
  have s1: "separate_name (c_string ''aaaaaaaa.aaa'') (initial_state one_file_image)
      = Inr ((initial_state one_file_image)
               \<lparr>name := [0x41, 0x41, 0x41, 0x41, 0x41, 0x41, 0x41, 0x41, 0],
                extension := [0x41, 0x41, 0x41, 0]\<rparr>)"
    by (simp add: separate_name_def initial_state_def toupper_def Let_def upt_conv_Cons
        c_string_def)
  have l: "live one_file_image 0"
    by (simp add: live_def directory_entry_def file_read_def one_file_image_def FCB_offset
        upt_conv_Cons)
  have n: "take 8 (drop 1 (directory_entry one_file_image 0))
             = [0x41, 0x41, 0x41, 0x41, 0x41, 0x41, 0x41, 0x41]"
    by (simp add: directory_entry_def file_read_def one_file_image_def FCB_offset upt_conv_Cons)
  have x: "take 3 (drop 9 (directory_entry one_file_image 0)) = [0x41, 0x41, 0x41]"
    by (simp add: directory_entry_def file_read_def one_file_image_def FCB_offset upt_conv_Cons)
  show ?thesis
    using name_conflict_no_write [OF s1, of 0 True "[0x31, 0x32]"] l n x by simp
qed

lemma directory_entry_nth:
  "j < 32 \<Longrightarrow> directory_entry img i ! j = img (convert_addr (head_addr_of_FCB i) + int j)"
  by (simp add: directory_entry_def file_read_def del: upt_rec_numeral)

lemma fold_max_Max:
  "fold (\<lambda>j b. max b (f j)) js (b::int) = Max (insert b (f ` set js))"
proof (induction js arbitrary: b)
  case Nil
  show ?case by simp
next
  case (Cons j js)
  have "Max (insert (max b (f j)) (f ` set js)) = Max (insert b (insert (f j) (f ` set js)))"
    by (cases "set js = {}") (simp_all add: max.assoc)
  then show ?case by (simp add: Cons.IH)
qed

lemma entry_max_block_Max:
  "entry_max_block sc e b = Max (insert b ((\<lambda>j. char_val sc (e ! j)) ` {16..<32}))"
  unfolding entry_max_block_def by (simp only: fold_max_Max set_upt)

lemma finite_live_block_values: "finite (live_block_values sc img n)"
  by (simp add: live_block_values_def)

lemma live_block_values_Suc:
  "live_block_values sc img (Suc n) =
     (if live img (int n)
      then (\<lambda>j. char_val sc (directory_entry img (int n) ! j)) ` {16..<32} \<union> live_block_values sc img n
      else live_block_values sc img n)"
  by (auto simp add: live_block_values_def less_Suc_eq)

lemma scan_max_block_Max:
  "scan_max_block sc img n b = Max (insert b (live_block_values sc img n))"
proof (induction n)
  case 0
  show ?case by (simp add: live_block_values_def)
next
  case (Suc n)
  let ?E = "(\<lambda>j. char_val sc (directory_entry img (int n) ! j)) ` {16..<32}"
  let ?A = "live_block_values sc img n"
  have "Max (insert (Max (insert b ?A)) ?E) = Max (insert b (?E \<union> ?A))"
  proof -
    have "Max (insert (Max (insert b ?A)) ?E) = Max ({Max (insert b ?A)} \<union> ?E)" by simp
    also have "\<dots> = max (Max (insert b ?A)) (Max ?E)"
      by (subst Max_Un) simp_all
    also have "\<dots> = Max (insert b ?A \<union> ?E)"
      by (subst Max_Un) (simp_all add: finite_live_block_values)
    also have "insert b ?A \<union> ?E = insert b (?E \<union> ?A)" by auto
    finally show ?thesis .
  qed
  then show ?case
    by (simp add: Suc.IH live_block_values_Suc entry_max_block_Max del: upt_rec_numeral)
qed

lemma high_block_image_signed: "char_val True (high_block_image a) \<le> 1"
  by (simp add: high_block_image_def char_val_def)

lemma high_block_image_unsigned: "char_val False (high_block_image a) \<le> 128"
  by (simp add: high_block_image_def char_val_def)

lemma live_high_block_image: "live high_block_image 0"
  by (simp add: live_def directory_entry_nth FCB_offset high_block_image_def)

lemma high_block_image_16: "directory_entry high_block_image 0 ! 16 = 0x80"
  by (simp add: directory_entry_nth FCB_offset high_block_image_def)

lemma signed_values: "v \<in> live_block_values True high_block_image n \<Longrightarrow> v \<le> 1"
  using high_block_image_signed
  by (auto simp add: live_block_values_def directory_entry_nth)

lemma unsigned_values: "v \<in> live_block_values False high_block_image n \<Longrightarrow> v \<le> 128"
  using high_block_image_unsigned
  by (auto simp add: live_block_values_def directory_entry_nth)

lemma unsigned_128: "128 \<in> live_block_values False high_block_image 128"
proof -
  have v: "char_val False (directory_entry high_block_image (int 0) ! 16) = 128"
    by (simp add: high_block_image_16 char_val_def)
  have l: "live high_block_image (int 0)"
    using live_high_block_image by simp
  have "128 \<in> (\<lambda>j. char_val False (directory_entry high_block_image (int 0) ! j)) ` {16..<32}"
    by (rule image_eqI [of _ _ 16]) (simp_all only: v atLeastLessThan_iff, simp_all)
  moreover have "(0::nat) \<in> {i. i < 128 \<and> live high_block_image (int i)}"
    using l by simp
  ultimately show ?thesis
    unfolding live_block_values_def by (rule UN_I [rotated])
qed

lemma scan_high_signed: "scan_max_block True high_block_image 128 1 = 1"
  unfolding scan_max_block_Max
  by (rule Max_eqI) (auto simp add: finite_live_block_values dest: signed_values)

lemma scan_high_unsigned: "scan_max_block False high_block_image 128 1 = 128"
  unfolding scan_max_block_Max
  by (rule Max_eqI) (auto simp add: finite_live_block_values unsigned_128 dest: unsigned_values)

lemma scan_max_block_ge: "b \<le> scan_max_block sc img n b"
  unfolding scan_max_block_Max by (rule Max_ge) (simp_all add: finite_live_block_values)

text \<open>
  Where plain \<^verbatim>\<open>char\<close> is unsigned the scanner returns the largest allocation-map byte of
  the live slots, from 1 on; on every platform the first writable block is at least 2.
\<close>

lemma same_name_check_unsigned:
  "last_living_block_num s = 1 \<Longrightarrow>
   last_living_block_num (snd (same_name_check False s))
     = Max (insert 1 (live_block_values False (image_file s) 128))
   \<and> 2 \<le> last_living_block_num (snd (same_name_check sc s)) + 1"
  using scan_max_block_ge [of 1 sc "image_file s" 128]
  by (simp add: same_name_check_eq scan_max_block_Max)

text \<open>
  Claim C3. The scanner is to return the largest allocation-map byte of the live slots,
  read as an unsigned byte. \<^verbatim>\<open>FCB_buff\<close> is an array of plain \<^verbatim>\<open>char\<close>: where that type is
  signed, a byte from 0x80 on compares as a negative number. On the image whose live slot
  0 names block 128 the scanner then returns 1, and 128 only where \<^verbatim>\<open>char\<close> is unsigned.
\<close>

theorem scan_signed_char_high_block:
  "last_living_block_num (snd (same_name_check True
      ((initial_state high_block_image)\<lparr>name := nm, extension := ex\<rparr>))) = 1
   \<and> live high_block_image 0
   \<and> uint (directory_entry high_block_image 0 ! 16) = 128
   \<and> last_living_block_num (snd (same_name_check False
      ((initial_state high_block_image)\<lparr>name := nm, extension := ex\<rparr>))) = 128"
  by (simp add: same_name_check_eq initial_state_def scan_high_signed scan_high_unsigned
      live_high_block_image high_block_image_16)

section \<open>The buffers\<close>

lemma fold_update_nth:
  "k < length b \<Longrightarrow>
   fold (\<lambda>i b. b[i := f i]) [a..<c] b ! k = (if a \<le> k \<and> k < c then f k else b ! k)"
proof (induction c)
  case 0
  show ?case by simp
next
  case (Suc c)
  show ?case
  proof (cases "a \<le> c")
    case True
    show ?thesis
    proof (cases "k = c")
      case True
      with \<open>a \<le> c\<close> Suc.prems show ?thesis by (simp add: length_fold_update)
    next
      case False
      with \<open>a \<le> c\<close> Suc show ?thesis by (simp add: less_Suc_eq)
    qed
  next
    case False
    then show ?thesis by auto
  qed
qed

lemma fold_update_const:
  "n \<le> length b \<Longrightarrow> fold (\<lambda>i b. b[i := c]) [0..<n] b = replicate n c @ drop n b"
  by (rule nth_equalityI)
     (auto simp add: length_fold_update fold_update_nth nth_append simp del: upt_Suc)

lemma init_record_buf_eq:
  "length (record_buff s) = 128 \<Longrightarrow> init_record_buf s = s\<lparr>record_buff := replicate 128 0x1A\<rparr>"
  by (simp add: init_record_buf_def fold_update_const del: upt_rec_numeral)

lemma length_make_entry: "length (make_entry nm ex e rc am) = 32"
  by (simp add: make_entry_def)

lemma make_entry_nth: "k < 32 \<Longrightarrow> make_entry nm ex e rc am ! k = entry_byte nm ex e rc am k"
  by (simp add: make_entry_def del: upt_rec_numeral)

lemma init_FCB_buf_eq:
  assumes "length (FCB_buff s) = 32"
  shows "init_FCB_buf s = s\<lparr>FCB_buff := make_entry (name s) (extension s) 0 0 (\<lambda>j. 0)\<rparr>"
proof -
  have "fold (\<lambda>i b. b[i := 0]) [12..<32]
           (fold (\<lambda>i b. b[i := extension s ! (i - 9)]) [9..<12]
              (fold (\<lambda>i b. b[i := name s ! (i - 1)]) [1..<9]
                 ((FCB_buff s)[0 := 0])))
        = make_entry (name s) (extension s) 0 0 (\<lambda>j. 0)"
    using assms
    by (intro nth_equalityI)
       (auto simp add: length_fold_update fold_update_nth length_make_entry make_entry_nth
          entry_byte_def simp del: upt_rec_numeral)
  then show ?thesis by (simp add: init_FCB_buf_def)
qed

lemma make_entry_update:
  "k < 32 \<Longrightarrow> (make_entry nm ex e rc am)[k := v]
     = map ((entry_byte nm ex e rc am)(k := v)) [0..<32]"
  by (rule nth_equalityI) (auto simp add: make_entry_def nth_list_update simp del: upt_rec_numeral)

section \<open>One pass through the loop\<close>

lemma div16_bounds: "16 * (x div 16) \<le> x \<and> x < 16 * (x div 16) + (16::int)"
  using mult_div_mod_eq [of 16 x] pos_mod_bound [of 16 x] pos_mod_sign [of 16 x] by linarith

lemma div128_bounds: "128 * (x div 128) \<le> x \<and> x < 128 * (x div 128) + (128::int)"
  using mult_div_mod_eq [of 128 x] pos_mod_bound [of 128 x] pos_mod_sign [of 128 x] by linarith

lemma div16_plus15: "(m + 15) div 16 = m div 16 \<or> (m + 15) div 16 = m div 16 + (1::int)"
  using div16_bounds [of m] div16_bounds [of "m + 15"] by linarith

lemma div16_Suc:
  "(m + 1) div 16 = m div 16 + (if (m + 1) mod 16 = 0 then 1 else (0::int))"
proof -
  have e: "16 * ((m + 1) div 16) + (m + 1) mod 16 = m + 1" by (rule mult_div_mod_eq)
  have b: "0 \<le> (m + 1) mod 16" "(m + 1) mod 16 < 16" by simp_all
  show ?thesis
  proof (cases "(m + 1) mod 16 = 0")
    case True
    with e div16_bounds [of m] have "(m + 1) div 16 = m div 16 + 1" by linarith
    with True show ?thesis by simp
  next
    case False
    with b have "1 \<le> (m + 1) mod 16" by linarith
    with e b div16_bounds [of m] have "(m + 1) div 16 = m div 16" by linarith
    with False show ?thesis by simp
  qed
qed

lemma div128_Suc:
  "(m + 1) div 128 = m div 128 + (if (m + 1) mod 128 = 0 then 1 else (0::int))"
proof -
  have e: "128 * ((m + 1) div 128) + (m + 1) mod 128 = m + 1" by (rule mult_div_mod_eq)
  have b: "0 \<le> (m + 1) mod 128" "(m + 1) mod 128 < 128" by simp_all
  show ?thesis
  proof (cases "(m + 1) mod 128 = 0")
    case True
    with e div128_bounds [of m] have "(m + 1) div 128 = m div 128 + 1" by linarith
    with True show ?thesis by simp
  next
    case False
    with b have "1 \<le> (m + 1) mod 128" by linarith
    with e b div128_bounds [of m] have "(m + 1) div 128 = m div 128" by linarith
    with False show ?thesis by simp
  qed
qed

lemma written_blocks_eq:
  "(m + 1) div 16 + (if (m + 1) mod 16 \<noteq> 0 then 1 else 0) = m div 16 + (1::int)"
  by (simp add: div16_Suc)

lemma offset_eq:
  assumes "0 \<le> (m::int)" "m < 256"
  shows "(16 + (m div 16 + 1) - 1) mod 16 = m div 16"
proof -
  have "m div 16 \<le> 255 div 16" using assms by (intro zdiv_mono1) simp_all
  then have "m div 16 < 16" by simp
  moreover have "0 \<le> m div 16" using assms by simp
  ultimately show ?thesis by simp
qed

lemma block_map_0: "block_map B 0 = (\<lambda>j. 0)"
  by (rule ext) (simp add: block_map_def)

lemma block_map_step:
  assumes "0 \<le> m"
  shows "(block_map B ((m + 15) div 16))(nat (m div 16) := word_of_int (B + (m div 16 + 1)))
           = block_map B (m div 16 + 1)"
proof (rule ext)
  fix j
  have d: "0 \<le> m div 16" using assms by simp
  show "((block_map B ((m + 15) div 16))(nat (m div 16) := word_of_int (B + (m div 16 + 1)))) j
           = block_map B (m div 16 + 1) j"
  proof (cases "j = nat (m div 16)")
    case True
    with d show ?thesis by (simp add: block_map_def add.commute add.left_commute)
  next
    case False
    with d have "int j \<noteq> m div 16" by auto
    with div16_plus15 [of m] False show ?thesis by (auto simp add: block_map_def)
  qed
qed

lemma length_chunk: "length (chunk src n) = 128"
  by (simp add: chunk_def)

lemma fread_into_fill:
  "take 128 (drop (128 * n) src) @ drop (length (take 128 (drop (128 * n) src))) (replicate 128 0x1A)
     = chunk src n"
  by (simp add: chunk_def)

lemma entry_update_12_15_map:
  assumes "j < 16"
  shows "(make_entry nm ex e rc am)[12 := word_of_int e', 15 := word_of_int rc', 16 + j := v]
           = make_entry nm ex e' rc' (am(j := v))"
  using assms
  by (intro nth_equalityI)
     (auto simp add: length_make_entry make_entry_nth nth_list_update entry_byte_def)

lemma fcb_step:
  assumes "n < 256"
  shows "(fcb_after nm ex B n)
           [12 := word_of_int (int n div 128),
            15 := word_of_int (if (int n + 1) mod 128 = 0 then 128 else (int n + 1) mod 128),
            16 + nat (int n div 16) := word_of_int (B + (int n div 16 + 1))]
         = fcb_after nm ex B (Suc n)"
proof -
  let ?m = "int n"
  let ?R = "if (?m + 1) mod 128 = 0 then 128 else (?m + 1) mod 128"
  have m: "0 \<le> ?m" "?m < 256" using assms by simp_all
  have "?m div 16 \<le> 255 div 16" using m by (intro zdiv_mono1) simp_all
  then have q: "0 \<le> ?m div 16" "?m div 16 < 16" using m by simp_all
  have idx: "nat (?m div 16) < 16"
    using q by simp
  obtain e rc where f: "fcb_after nm ex B n = make_entry nm ex e rc (block_map B ((?m + 15) div 16))"
    by (cases "n = 0") (simp_all add: fcb_after_def)
  have step2: "(make_entry nm ex e rc (block_map B ((?m + 15) div 16)))
           [12 := word_of_int (?m div 128), 15 := word_of_int ?R,
            16 + nat (?m div 16) := word_of_int (B + (?m div 16 + 1))]
         = make_entry nm ex (?m div 128) ?R (block_map B (?m div 16 + 1))"
    by (simp only: entry_update_12_15_map [OF idx] block_map_step [OF m(1)])
  have step3: "fcb_after nm ex B (Suc n) = make_entry nm ex (?m div 128) ?R (block_map B (?m div 16 + 1))"
  proof -
    have s: "int (Suc n) = ?m + 1" by simp
    have a: "(?m + 1 - 1) div 128 = ?m div 128" by simp
    have b: "(?m + 1 + 15) div 16 = ?m div 16 + 1" by simp
    have z: "(Suc n = 0) = False" by simp
    show ?thesis unfolding fcb_after_def s by (simp only: a b z if_False)
  qed
  show ?thesis unfolding f step3 by (rule step2)
qed

lemma loop_body_step:
  assumes n: "n < 255" and capF: "F + int n div 128 < 128" and capB: "16 * (B + 1) + int n < 2432"
  shows "loop_body (take 128 (drop (128 * n) src)) (loop_state img nm ex F B src n)
           = Some (loop_state img nm ex F B src (Suc n))"
proof -
  let ?m = "int n"
  have m: "0 \<le> ?m + 1" "?m + 1 \<noteq> 256" using n by simp_all
  have d: "(?m + 1) sdiv 16 = (?m + 1) div 16" "(?m + 1) smod 16 = (?m + 1) mod 16"
    "(?m + 1) smod 128 = (?m + 1) mod 128"
    using m(1) by (simp_all add: sdiv_nonneg smod_nonneg)
  have A: "(?m + 1) mod 16 \<noteq> 0 \<Longrightarrow> (?m + 1) div 16 = ?m div 16"
    "(?m + 1) mod 16 = 0 \<Longrightarrow> (?m + 1) div 16 = ?m div 16 + 1"
    by (simp_all add: div16_Suc)
  have B: "(?m + 1) mod 128 \<noteq> 0 \<Longrightarrow> (?m + 1) div 128 = ?m div 128"
    "(?m + 1) mod 128 = 0 \<Longrightarrow> (?m + 1) div 128 = ?m div 128 + 1"
    by (simp_all add: div128_Suc)
  have "?m div 16 \<le> 255 div 16" using n by (intro zdiv_mono1) simp_all
  then have q: "0 \<le> ?m div 16" "?m div 16 < 16" by simp_all
  have q': "?m div 16 mod 16 = ?m div 16" using q by simp
  have idx: "nat (16 + ?m div 16) = 16 + nat (?m div 16)" using q by simp
  have cap: "\<not> 128 \<le> F + ?m div 128" "\<not> 2416 \<le> 16 * B + ?m" using capF capB by simp_all
  have L: "loop_state img nm ex F B src (Suc n) = 
     \<lparr>image_file = put_records B src (Suc n) img,
      name = nm,
      extension = ex,
      FCB_buff = fcb_after nm ex B (Suc n),
      record_buff = replicate 128 0x1A,
      last_living_block_num = B,
      last_living_FCB_num = F,
      used_FCBs = (int n + 1) div 128,
      written_records = int n + 1\<rparr>"
    by (simp add: loop_state_def add.commute del: put_records.simps)
  show ?thesis
    unfolding loop_body_def L
    apply (subst Let_def)
    apply (simp add: loop_state_def fread_into_fill num_of_FCBs_eq num_of_data_blocks_eq RPD_def capF capB del: put_records.simps)
    apply (subst Let_def)
    apply (simp add: save_record_def length_chunk del: put_records.simps)
    apply (subst Let_def)
    apply (simp del: put_records.simps)
    apply (subst Let_def)
    apply (simp add: BPS_def d m  init_record_buf_eq chunk_def RPD_def)
    apply (insert fcb_step [of n nm ex B] n)
    apply (simp add: smod_nonneg A B q' idx cap)
    apply (cases "(int n + 1) mod 128 = 0")
     apply simp_all
    done
qed

lemma loop_body_255:
  assumes capF: "F + 1 < 128" and capB: "16 * (B + 1) + 255 < 2432"
  shows "loop_body (take 128 (drop (128 * 255) src)) (loop_state img nm ex F B src 255)
           = Some (state_after_256 img nm ex F B src)"
proof -
  have P: "put_records B src 256 img = file_write (put_records B src 255 img)
       (convert_addr (head_addr_of_record (RPD * (B + 1) + 255))) (chunk src 255)"
    using put_records.simps(2) [of B src 255 img] by simp
  have fs: "(fcb_after nm ex B 255)[12 := 1, 15 := 128, 31 := word_of_int B + 16] = fcb_after nm ex B 256"
    using fcb_step [of 255 nm ex B] by simp
  have len: "length (fcb_after nm ex B 256) = 32"
    by (simp add: fcb_after_def length_make_entry)
  have cap: "\<not> 128 \<le> F + 1" "\<not> 2416 \<le> 16 * B + 255" using capF capB by simp_all
  show ?thesis
    unfolding loop_body_def state_after_256_def P
    using capF capB
    apply (subst Let_def)
    apply (simp add: loop_state_def fread_into_fill num_of_FCBs_eq num_of_data_blocks_eq RPD_def del: put_records.simps)
    apply (subst Let_def)
    apply (simp add: save_record_def length_chunk del: put_records.simps)
    apply ((subst Let_def)?)
    apply (simp add: BPS_def init_record_buf_eq init_FCB_buf_eq save_FCB_def fs len block_map_0 chunk_def
         del: put_records.simps)
    done
qed

section \<open>The loop\<close>

lemma write_loop_Nil: "write_loop [] s = (True, s)"
  by (simp add: write_loop.simps)

lemma write_loop_advance:
  assumes "n \<le> 255"
    and "\<And>k. k < n \<Longrightarrow> 128 * k < length src \<and> F + int k div 128 < 128 \<and> 16 * (B + 1) + int k < 2432"
  shows "write_loop src (loop_state img nm ex F B src 0)
           = write_loop (drop (128 * n) src) (loop_state img nm ex F B src n)"
  using assms
proof (induction n)
  case 0
  show ?case by simp
next
  case (Suc n)
  have k: "128 * n < length src" "F + int n div 128 < 128" "16 * (B + 1) + int n < 2432"
    using Suc.prems(2) [of n] by simp_all
  have ne: "take 128 (drop (128 * n) src) \<noteq> []" using k(1) by simp
  have "write_loop src (loop_state img nm ex F B src 0)
          = write_loop (drop (128 * n) src) (loop_state img nm ex F B src n)"
    using Suc.prems by (intro Suc.IH) simp_all
  also have "\<dots> = write_loop (drop 128 (drop (128 * n) src)) (loop_state img nm ex F B src (Suc n))"
    using Suc.prems(1) k ne
    by (subst write_loop.simps) (simp add: loop_body_step)
  also have "drop 128 (drop (128 * n) src) = drop (128 * Suc n) src"
    by (simp add: add.commute)
  finally show ?case .
qed

lemma capacity_below:
  assumes "k \<le> n" "F + int n div 128 < 128" "16 * (B + 1) + int n < 2432"
  shows "F + int k div 128 < 128 \<and> 16 * (B + 1) + int k < 2432"
proof -
  have "int k div 128 \<le> int n div 128" using assms(1) by (intro zdiv_mono1) simp_all
  with assms show ?thesis by simp
qed

lemma write_loop_small:
  assumes N: "N \<le> 255" and len: "length src \<le> 128 * N" "N = 0 \<or> 128 * (N - 1) < length src"
    and cap: "N = 0 \<or> F + int (N - 1) div 128 < 128 \<and> 16 * (B + 1) + int (N - 1) < 2432"
  shows "write_loop src (loop_state img nm ex F B src 0) = (True, loop_state img nm ex F B src N)"
proof -
  have "128 * k < length src \<and> F + int k div 128 < 128 \<and> 16 * (B + 1) + int k < 2432"
    if "k < N" for k
  proof -
    from that have "k \<le> N - 1" "N \<noteq> 0" by simp_all
    with len cap capacity_below [of k "N - 1" F B] show ?thesis by auto
  qed
  with N have "write_loop src (loop_state img nm ex F B src 0)
           = write_loop (drop (128 * N) src) (loop_state img nm ex F B src N)"
    by (intro write_loop_advance) simp_all
  with len(1) show ?thesis by (simp add: write_loop_Nil)
qed

lemma write_loop_256:
  assumes len: "128 * 255 < length src" "length src \<le> 128 * 256"
    and cap: "F + 1 < 128" "16 * (B + 1) + 255 < 2432"
  shows "write_loop src (loop_state img nm ex F B src 0) = (True, state_after_256 img nm ex F B src)"
proof -
  have "128 * k < length src \<and> F + int k div 128 < 128 \<and> 16 * (B + 1) + int k < 2432"
    if "k < 255" for k
  proof -
    from that have "k \<le> 255" by simp
    with len cap capacity_below [of k 255 F B] that show ?thesis by auto
  qed
  then have "write_loop src (loop_state img nm ex F B src 0)
           = write_loop (drop (128 * 255) src) (loop_state img nm ex F B src 255)"
    by (intro write_loop_advance) simp_all
  also have "\<dots> = write_loop (drop 128 (drop (128 * 255) src)) (state_after_256 img nm ex F B src)"
  proof -
    have st: "loop_body (take 128 (drop (128 * 255) src)) (loop_state img nm ex F B src 255)
                = Some (state_after_256 img nm ex F B src)"
      using cap by (rule loop_body_255)
    have ne: "(take 128 (drop (128 * 255) src) = []) = False" using len by simp
    show ?thesis
      by (subst write_loop.simps) (simp only: st ne if_False option.case)
  qed
  also have "\<dots> = (True, state_after_256 img nm ex F B src)"
    using len by (simp add: write_loop_Nil)
  finally show ?thesis .
qed

section \<open>The image after a write\<close>

subsection \<open>Reading back what was written\<close>

lemma file_read_write_same:
  "length bs = n \<Longrightarrow> file_read (file_write f off bs) off n = bs"
  by (rule nth_equalityI) (simp_all add: file_read_def file_write_def)

lemma file_read_write_other:
  "off' + int n \<le> off \<or> off + int (length bs) \<le> off' \<Longrightarrow>
     file_read (file_write f off bs) off' n = file_read f off' n"
  by (rule nth_equalityI) (auto simp add: file_read_def file_write_def)

lemma FCB_offset_mono:
  assumes "0 \<le> i" "i < k" "k \<le> 4096"
  shows "convert_addr (head_addr_of_FCB i) + 32 \<le> convert_addr (head_addr_of_FCB k)"
proof -
  have "i div 8 \<le> k div 8" using assms by (intro zdiv_mono1) simp_all
  with assms show ?thesis by (simp add: FCB_offset)
qed

lemma directory_entry_write_same:
  "length e = 32 \<Longrightarrow> directory_entry (file_write f (convert_addr (head_addr_of_FCB k)) e) k = e"
  by (simp add: directory_entry_def file_read_write_same)

lemma directory_entry_write_other:
  assumes "0 \<le> i" "i \<le> 4096" "0 \<le> k" "k \<le> 4096" "i \<noteq> k" "length e = 32"
  shows "directory_entry (file_write f (convert_addr (head_addr_of_FCB k)) e) i = directory_entry f i"
proof (cases "i < k")
  case True
  with assms FCB_offset_mono [of i k] show ?thesis
    by (simp add: directory_entry_def file_read_write_other)
next
  case False
  with assms FCB_offset_mono [of k i] show ?thesis
    by (simp add: directory_entry_def file_read_write_other)
qed

lemma directory_below_records:
  assumes "0 \<le> i" "i < 128" "32 \<le> r" "r \<le> 4096"
  shows "convert_addr (head_addr_of_FCB i) + 32 \<le> convert_addr (head_addr_of_record r)"
proof -
  have "i div 8 \<le> 127 div 8" using assms by (intro zdiv_mono1) simp_all
  moreover have "32 div 2 \<le> r div 2" using assms by (intro zdiv_mono1) simp_all
  ultimately show ?thesis using assms by (simp add: FCB_offset record_offset)
qed

lemma directory_entry_put_records:
  assumes "0 \<le> i" "i < 128" "1 \<le> B" "16 * (B + 1) + int n \<le> 4096"
  shows "directory_entry (put_records B src n img) i = directory_entry img i"
  using assms(4)
proof (induction n)
  case 0
  show ?case by simp
next
  case (Suc n)
  have "convert_addr (head_addr_of_FCB i) + 32
          \<le> convert_addr (head_addr_of_record (16 * (B + 1) + int n))"
    using assms(1-3) Suc.prems by (intro directory_below_records) simp_all
  then have "directory_entry (put_records B src (Suc n) img) i
               = directory_entry (put_records B src n img) i"
    by (simp add: directory_entry_def file_read_write_other RPD_def)
  with Suc show ?case by simp
qed

subsection \<open>Fields of an entry\<close>

lemma make_entry_fields:
  "make_entry nm ex e rc am ! 0 = 0"
  "make_entry nm ex e rc am ! 12 = word_of_int e"
  "make_entry nm ex e rc am ! 15 = word_of_int rc"
  by (simp_all add: make_entry_nth entry_byte_def)

lemma make_entry_map: "drop 16 (make_entry nm ex e rc am) = map am [0..<16]"
  by (rule nth_equalityI)
     (simp_all add: length_make_entry make_entry_nth entry_byte_def del: upt_rec_numeral)

lemma make_entry_name:
  "8 \<le> length nm \<Longrightarrow> take 8 (drop 1 (make_entry nm ex e rc am)) = take 8 nm"
  by (rule nth_equalityI) (simp_all add: length_make_entry make_entry_nth entry_byte_def)

lemma make_entry_extension:
  "3 \<le> length ex \<Longrightarrow> take 3 (drop 9 (make_entry nm ex e rc am)) = take 3 ex"
  by (rule nth_equalityI) (simp_all add: length_make_entry make_entry_nth entry_byte_def)

subsection \<open>Slots that change\<close>

lemma changed_entries_single:
  assumes k: "k < 128"
    and new: "directory_entry img' (int k) \<noteq> directory_entry img (int k)"
    and same: "\<And>i. i < 128 \<Longrightarrow> i \<noteq> k \<Longrightarrow> directory_entry img' (int i) = directory_entry img (int i)"
  shows "changed_entries img img' = [k]"
proof -
  let ?P = "\<lambda>i. directory_entry img' (int i) \<noteq> directory_entry img (int i)"
  have parts: "[0..<128] = [0..<k] @ [k] @ [Suc k..<128]"
  proof -
    have "[0..<k + (128 - k)] = [0..<k] @ [k..<k + (128 - k)]"
      by (rule upt_add_eq_append) simp
    then have "[0..<128] = [0..<k] @ [k..<128]" using k by simp
    moreover have "[k..<128] = k # [Suc k..<128]" using k by (rule upt_conv_Cons)
    ultimately show ?thesis by simp
  qed
  have "filter ?P [0..<k] = []" using same k by (auto simp add: filter_empty_conv)
  moreover have "filter ?P [Suc k..<128] = []" using same by (auto simp add: filter_empty_conv)
  ultimately show ?thesis
    unfolding changed_entries_def num_of_FCBs_eq using new
    by (simp add: parts del: upt_rec_numeral)
qed

lemma changed_entries_none:
  assumes "\<And>i. i < 128 \<Longrightarrow> directory_entry img' (int i) = directory_entry img (int i)"
  shows "changed_entries img img' = []"
  unfolding changed_entries_def num_of_FCBs_eq using assms
  by (auto simp add: filter_empty_conv simp del: upt_rec_numeral)

subsection \<open>From the start of the program to the loop\<close>

lemma scan_last_live_range:
  "scan_last_live img n d = d \<or> (0 \<le> scan_last_live img n d \<and> scan_last_live img n d < int n)"
  by (induction n) auto

lemma scan_last_live_dead_above:
  "scan_last_live img n d < int i \<Longrightarrow> i < n \<Longrightarrow> \<not> live img (int i)"
proof (induction n)
  case 0
  then show ?case by simp
next
  case (Suc n)
  then show ?case by (cases "i = n") (auto split: if_splits)
qed

lemma separate_name_dot:
  assumes "0x2E \<in> set fn"
  obtains nm ex where "separate_name fn (initial_state img) = Inr ((initial_state img)\<lparr>name := nm, extension := ex\<rparr>)"
    "length nm = 9" "length ex = 4"
proof -
  from assms obtain p where "strrchr fn 0x2E = Some p"
    using strrchr_None [of fn "0x2E"] by auto
  then obtain s1 where s1: "separate_name fn (initial_state img) = Inr s1"
    by (simp add: separate_name_def Let_def)
  from separate_name_Inr [OF s1] have
    eq: "s1 = (initial_state img)\<lparr>name := name s1, extension := extension s1\<rparr>"
    and len: "length (name s1) = 9" "length (extension s1) = 4"
    by (simp_all add: initial_state_def)
  have "Inr s1 = (Inr ((initial_state img)\<lparr>name := name s1, extension := extension s1\<rparr>) :: fault + state)"
    using eq by (rule arg_cong)
  with s1 have "separate_name fn (initial_state img)
      = Inr ((initial_state img)\<lparr>name := name s1, extension := extension s1\<rparr>)"
    by (rule trans)
  then show thesis using len by (rule that)
qed

lemma before_loop_eq:
  assumes "0x2E \<in> set fn"
  shows "before_loop sc img fn =
     loop_state img (name (before_loop sc img fn)) (extension (before_loop sc img fn))
       (lastLiveEntryIndex sc img fn) (lastUsedBlock sc img fn) src 0"
proof -
  from assms obtain nm ex where
    s1: "separate_name fn (initial_state img) = Inr ((initial_state img)\<lparr>name := nm, extension := ex\<rparr>)"
    by (rule separate_name_dot)
  have p: "projr (separate_name fn (initial_state img))
             = (initial_state img)\<lparr>name := nm, extension := ex\<rparr>"
    by (simp add: s1)
  show ?thesis
    unfolding lastLiveEntryIndex_def lastUsedBlock_def before_loop_def p
    by (simp add: same_name_check_eq initial_state_def init_FCB_buf_eq
        init_record_buf_eq length_directory_entry loop_state_def fcb_after_def block_map_0)
qed

lemma before_loop_facts:
  assumes "0x2E \<in> set fn"
  shows "image_file (before_loop sc img fn) = img"
    and "length (name (before_loop sc img fn)) = 9"
    and "length (extension (before_loop sc img fn)) = 4"
    and "1 \<le> lastUsedBlock sc img fn"
    and "- 1 \<le> lastLiveEntryIndex sc img fn"
    and "lastLiveEntryIndex sc img fn < 128"
    and "\<And>i. lastLiveEntryIndex sc img fn < int i \<Longrightarrow> i < 128 \<Longrightarrow> \<not> live img (int i)"
proof -
  from assms obtain nm ex where
    s1: "separate_name fn (initial_state img) = Inr ((initial_state img)\<lparr>name := nm, extension := ex\<rparr>)"
    and len: "length nm = 9" "length ex = 4"
    by (rule separate_name_dot)
  have p: "projr (separate_name fn (initial_state img))
             = (initial_state img)\<lparr>name := nm, extension := ex\<rparr>"
    by (simp add: s1)
  have b: "before_loop sc img fn =
      (initial_state img)\<lparr>name := nm, extension := ex,
         FCB_buff := make_entry nm ex 0 0 (\<lambda>j. 0),
         record_buff := replicate 128 0x1A,
         last_living_FCB_num := scan_last_live img 128 (- 1),
         last_living_block_num := scan_max_block sc img 128 1\<rparr>"
    unfolding before_loop_def p
    by (simp add: same_name_check_eq initial_state_def init_FCB_buf_eq
        init_record_buf_eq length_directory_entry)
  show "image_file (before_loop sc img fn) = img" by (simp add: b initial_state_def)
  show "length (name (before_loop sc img fn)) = 9" by (simp add: b len)
  show "length (extension (before_loop sc img fn)) = 4" by (simp add: b len)
  show "1 \<le> lastUsedBlock sc img fn"
    using scan_max_block_ge [of 1 sc img 128] by (simp add: lastUsedBlock_def b)
  have F: "lastLiveEntryIndex sc img fn = scan_last_live img 128 (- 1)"
    by (simp add: lastLiveEntryIndex_def b)
  show "- 1 \<le> lastLiveEntryIndex sc img fn" "lastLiveEntryIndex sc img fn < 128"
    using scan_last_live_range [of img 128 "- 1"] unfolding F by auto
  show "\<not> live img (int i)" if "lastLiveEntryIndex sc img fn < int i" "i < 128" for i
    using that scan_last_live_dead_above [of img 128 "- 1" i] unfolding F by simp
qed

lemma main_eq:
  assumes "0x2E \<in> set fn" "\<not> duplicateFound sc img fn"
  shows "main sc img fn src =
     (case write_loop src (before_loop sc img fn) of
        (True, s5) \<Rightarrow>
          Inr (Done, save_FCB s5 (last_living_FCB_num s5 + 1 + used_FCBs s5 smod 2))
      | (False, s5) \<Rightarrow> Inr (CapacityExceeded, s5))"
proof -
  from assms(1) obtain nm ex where
    s1: "separate_name fn (initial_state img) = Inr ((initial_state img)\<lparr>name := nm, extension := ex\<rparr>)"
    by (rule separate_name_dot)
  obtain r s2 where sn: "same_name_check sc ((initial_state img)\<lparr>name := nm, extension := ex\<rparr>) = (r, s2)"
    by (cases "same_name_check sc ((initial_state img)\<lparr>name := nm, extension := ex\<rparr>)")
  have r: "r = 0" using assms(2) by (simp add: duplicateFound_def s1 sn)
  show ?thesis
    by (simp add: main_def write_in_def s1 sn r before_loop_def Let_def)
qed

subsection \<open>The empty disk\<close>

lemma blank_not_live: "\<not> live blank_image i"
  by (simp add: live_def directory_entry_nth blank_image_def)

lemma blank_scan:
  assumes "0x2E \<in> set fn"
  shows "\<not> duplicateFound sc blank_image fn"
    and "lastLiveEntryIndex sc blank_image fn = - 1"
    and "lastUsedBlock sc blank_image fn = 1"
proof -
  from assms obtain nm ex where
    s1: "separate_name fn (initial_state blank_image)
           = Inr ((initial_state blank_image)\<lparr>name := nm, extension := ex\<rparr>)"
    by (rule separate_name_dot)
  have p: "projr (separate_name fn (initial_state blank_image))
             = (initial_state blank_image)\<lparr>name := nm, extension := ex\<rparr>"
    by (simp add: s1)
  have d: "scan_dup blank_image nm ex 128 0 = 0"
    by (rule scan_dup_none) (simp add: blank_not_live)
  have l: "scan_last_live blank_image 128 (- 1) = - 1"
    by (rule scan_last_live_none) (simp add: blank_not_live)
  have b: "scan_max_block sc blank_image 128 1 = 1"
    by (rule scan_max_block_none) (simp add: blank_not_live)
  show "\<not> duplicateFound sc blank_image fn"
    unfolding duplicateFound_def p by (simp add: same_name_check_eq initial_state_def d)
  show "lastLiveEntryIndex sc blank_image fn = - 1"
    unfolding lastLiveEntryIndex_def before_loop_def p
    by (simp add: same_name_check_eq initial_state_def l init_FCB_buf_eq init_record_buf_eq
        length_directory_entry)
  show "lastUsedBlock sc blank_image fn = 1"
    unfolding lastUsedBlock_def before_loop_def p
    by (simp add: same_name_check_eq initial_state_def b init_FCB_buf_eq init_record_buf_eq
        length_directory_entry)
qed

lemma before_loop_names:
  assumes "0x2E \<in> set fn"
  shows "name (before_loop sc img fn) = name (projr (separate_name fn (initial_state img)))"
    and "extension (before_loop sc img fn) = extension (projr (separate_name fn (initial_state img)))"
proof -
  from assms obtain nm ex where
    s1: "separate_name fn (initial_state img)
           = Inr ((initial_state img)\<lparr>name := nm, extension := ex\<rparr>)"
    by (rule separate_name_dot)
  have p: "projr (separate_name fn (initial_state img))
             = (initial_state img)\<lparr>name := nm, extension := ex\<rparr>"
    by (simp add: s1)
  show "name (before_loop sc img fn) = name (projr (separate_name fn (initial_state img)))"
    unfolding before_loop_def p
    by (simp add: same_name_check_eq initial_state_def init_FCB_buf_eq init_record_buf_eq
        length_directory_entry)
  show "extension (before_loop sc img fn) = extension (projr (separate_name fn (initial_state img)))"
    unfolding before_loop_def p
    by (simp add: same_name_check_eq initial_state_def init_FCB_buf_eq init_record_buf_eq
        length_directory_entry)
qed

lemma a_b_names:
  "name (before_loop sc img (c_string ''a.b'')) = [0x41, 0x20, 0x20, 0x20, 0x20, 0x20, 0x20, 0x20, 0]"
  "extension (before_loop sc img (c_string ''a.b'')) = [0x42, 0x20, 0x20, 0]"
  by (simp_all add: before_loop_names separate_name_def initial_state_def toupper_def Let_def
      upt_conv_Cons c_string_def)

lemma a_b_dot: "0x2E \<in> set (c_string ''a.b'')"
  by (simp add: c_string_def)

text \<open>The image after the final \<open>save_FCB\<close> into slot \<open>k\<close>, over records stored behind block \<open>B\<close>.\<close>

lemma final_directory:
  assumes k: "0 \<le> k" "k < 128" and B: "1 \<le> B" "16 * (B + 1) + int n \<le> 4096"
    and e: "length e = 32" "e ! 0 = 0" and dead: "\<not> live img k"
  shows "directory_entry
           (file_write (put_records B src n img) (convert_addr (head_addr_of_FCB k)) e) k = e"
    and "changed_entries img
           (file_write (put_records B src n img) (convert_addr (head_addr_of_FCB k)) e) = [nat k]"
proof -
  let ?img' = "file_write (put_records B src n img) (convert_addr (head_addr_of_FCB k)) e"
  show k_new: "directory_entry ?img' k = e"
    using e(1) by (rule directory_entry_write_same)
  have other: "directory_entry ?img' (int i) = directory_entry img (int i)"
    if "i < 128" "i \<noteq> nat k" for i
  proof -
    have "int i \<noteq> k" using that k by auto
    then have "directory_entry ?img' (int i) = directory_entry (put_records B src n img) (int i)"
      using that k e(1) by (intro directory_entry_write_other) simp_all
    also have "\<dots> = directory_entry img (int i)"
      using that B by (intro directory_entry_put_records) simp_all
    finally show ?thesis .
  qed
  have "directory_entry img k ! 0 \<noteq> 0" using dead by (simp add: live_def)
  with e(2) k_new have "directory_entry ?img' k \<noteq> directory_entry img k" by auto
  then have "directory_entry ?img' (int (nat k)) \<noteq> directory_entry img (int (nat k))"
    using k by simp
  moreover have "nat k < 128" using k by simp
  ultimately show "changed_entries img ?img' = [nat k]"
    using other by (intro changed_entries_single) simp_all
qed

section \<open>Sources of fewer than 256 records\<close>

lemma char_val_le: "char_val sc c \<le> 255"
proof (cases sc)
  case True
  have "sint c < 2 ^ (LENGTH(8) - 1)" by (rule sint_lt)
  with True show ?thesis by (simp add: char_val_def)
next
  case False
  have "uint c < 2 ^ LENGTH(8)" by (rule uint_lt2p)
  with False show ?thesis by (simp add: char_val_def)
qed

lemma scan_max_block_le: "b \<le> 255 \<Longrightarrow> scan_max_block sc img n b \<le> 255"
  unfolding scan_max_block_Max
  by (subst Max_le_iff) (auto simp add: finite_live_block_values live_block_values_def char_val_le)

lemma lastUsedBlock_le:
  assumes "0x2E \<in> set fn"
  shows "lastUsedBlock sc img fn \<le> 255"
proof -
  from assms obtain nm ex where
    s1: "separate_name fn (initial_state img) = Inr ((initial_state img)\<lparr>name := nm, extension := ex\<rparr>)"
    by (rule separate_name_dot)
  have p: "projr (separate_name fn (initial_state img))
             = (initial_state img)\<lparr>name := nm, extension := ex\<rparr>"
    by (simp add: s1)
  have "lastUsedBlock sc img fn = scan_max_block sc img 128 1"
    unfolding lastUsedBlock_def before_loop_def p
    by (simp add: same_name_check_eq initial_state_def init_FCB_buf_eq init_record_buf_eq
        length_directory_entry)
  then show ?thesis using scan_max_block_le [of 1 sc img 128] by simp
qed

lemma fcb_after_basic: "length (fcb_after nm ex B n) = 32" "fcb_after nm ex B n ! 0 = 0"
  by (simp_all add: fcb_after_def length_make_entry make_entry_fields)

lemma main_small:
  fixes sc img fn src N
  defines "F \<equiv> lastLiveEntryIndex sc img fn" and "B \<equiv> lastUsedBlock sc img fn"
    and "nm \<equiv> name (before_loop sc img fn)" and "ex \<equiv> extension (before_loop sc img fn)"
  assumes dot: "0x2E \<in> set fn" and nd: "\<not> duplicateFound sc img fn"
    and N: "N \<le> 255" and len: "length src \<le> 128 * N" "N = 0 \<or> 128 * (N - 1) < length src"
    and cap: "N = 0 \<or> F + int (N - 1) div 128 < 128 \<and> 16 * (B + 1) + int (N - 1) < 2432"
  shows "final_outcome (main sc img fn src) = Inr Done"
    and "final_image (main sc img fn src)
           = file_write (put_records B src N img)
               (convert_addr (head_addr_of_FCB (F + 1 + (int N div 128) mod 2))) (fcb_after nm ex B N)"
proof -
  have b: "before_loop sc img fn = loop_state img nm ex F B src 0"
    unfolding F_def B_def nm_def ex_def using dot by (rule before_loop_eq)
  have w: "write_loop src (loop_state img nm ex F B src 0) = (True, loop_state img nm ex F B src N)"
    using N len cap by (rule write_loop_small)
  have d: "0 \<le> int N div 128" by simp
  have sel: "last_living_FCB_num (loop_state img nm ex F B src N) = F"
    "used_FCBs (loop_state img nm ex F B src N) = int N div 128"
    by (simp_all add: loop_state_def)
  have "main sc img fn src
      = Inr (Done, save_FCB (loop_state img nm ex F B src N)
               (last_living_FCB_num (loop_state img nm ex F B src N) + 1
                  + used_FCBs (loop_state img nm ex F B src N) smod 2))"
    by (simp only: main_eq [OF dot nd] b w prod.case bool.case if_True)
  then have m: "main sc img fn src
      = Inr (Done, save_FCB (loop_state img nm ex F B src N) (F + 1 + (int N div 128) mod 2))"
    using d by (simp add: sel smod_nonneg)
  show "final_outcome (main sc img fn src) = Inr Done"
    by (simp add: m final_outcome_def)
  show "final_image (main sc img fn src)
           = file_write (put_records B src N img)
               (convert_addr (head_addr_of_FCB (F + 1 + (int N div 128) mod 2))) (fcb_after nm ex B N)"
    by (simp add: m final_image_def save_FCB_def loop_state_def fcb_after_basic)
qed

lemma main_small_directory:
  fixes sc img fn src N
  defines "F \<equiv> lastLiveEntryIndex sc img fn" and "B \<equiv> lastUsedBlock sc img fn"
    and "nm \<equiv> name (before_loop sc img fn)" and "ex \<equiv> extension (before_loop sc img fn)"
  assumes dot: "0x2E \<in> set fn" and nd: "\<not> duplicateFound sc img fn"
    and N: "N \<le> 255" and len: "length src \<le> 128 * N" "N = 0 \<or> 128 * (N - 1) < length src"
    and cap: "N = 0 \<or> F + int (N - 1) div 128 < 128 \<and> 16 * (B + 1) + int (N - 1) < 2432"
    and slot: "F + 1 + (int N div 128) mod 2 < 128"
  shows "directory_entry (final_image (main sc img fn src)) (F + 1 + (int N div 128) mod 2)
           = fcb_after nm ex B N"
    and "changed_entries img (final_image (main sc img fn src))
           = [nat (F + 1 + (int N div 128) mod 2)]"
proof -
  let ?k = "F + 1 + (int N div 128) mod 2"
  have fi: "final_image (main sc img fn src)
           = file_write (put_records B src N img) (convert_addr (head_addr_of_FCB ?k))
               (fcb_after nm ex B N)"
    unfolding F_def B_def nm_def ex_def
    using dot nd N len cap [unfolded F_def B_def] by (rule main_small(2))
  have F: "- 1 \<le> F" "F < 128" and B: "1 \<le> B" "B \<le> 255"
    unfolding F_def B_def using before_loop_facts [OF dot] lastUsedBlock_le [OF dot] by simp_all
  have md: "0 \<le> (int N div 128) mod 2" by simp
  have k: "0 \<le> ?k" "?k < 128" using F md slot by linarith+
  have "lastLiveEntryIndex sc img fn < int (nat ?k)" "nat ?k < 128"
    using F md k unfolding F_def by simp_all
  then have "\<not> live img (int (nat ?k))"
    by (rule before_loop_facts(7) [OF dot])
  then have dead: "\<not> live img ?k" using k by simp
  have room: "16 * (B + 1) + int N \<le> 4096" using cap B by auto
  show "directory_entry (final_image (main sc img fn src)) ?k = fcb_after nm ex B N"
    unfolding fi using k B(1) room fcb_after_basic dead by (rule final_directory(1))
  show "changed_entries img (final_image (main sc img fn src)) = [nat ?k]"
    unfolding fi using k B(1) room fcb_after_basic dead by (rule final_directory(2))
qed

lemma word8_nonzero: "0 < x \<Longrightarrow> x < 256 \<Longrightarrow> (word_of_int x :: byte) \<noteq> 0"
  by (simp add: word_of_int_eq_0_iff zdvd_not_zless)

lemma filter_less_upt: "m \<le> n \<Longrightarrow> filter (\<lambda>j. j < m) [0..<n] = [0..<m]"
proof (induction n)
  case 0
  then show ?case by simp
next
  case (Suc n)
  then show ?case by (cases "m = Suc n") simp_all
qed

lemma block_map_count:
  assumes "1 \<le> B" "B + k \<le> 255" "0 \<le> k" "k \<le> 16"
  shows "length (filter (\<lambda>b. b \<noteq> 0) (map (block_map B k) [0..<16])) = nat k"
proof -
  have "(block_map B k j \<noteq> 0) = (j < nat k)" if "j < 16" for j
  proof (cases "int j < k")
    case True
    then have "0 < B + 1 + int j" "B + 1 + int j < 256" using assms by simp_all
    then have "(word_of_int (B + 1 + int j) :: byte) \<noteq> 0" by (rule word8_nonzero)
    with True show ?thesis by (simp add: block_map_def)
  next
    case False
    then show ?thesis by (simp add: block_map_def)
  qed
  then have "filter (\<lambda>j. block_map B k j \<noteq> 0) [0..<16] = filter (\<lambda>j. j < nat k) [0..<16]"
    by (intro filter_cong) simp_all
  also have "\<dots> = [0..<nat k]" using assms by (intro filter_less_upt) simp
  finally show ?thesis by (simp add: filter_map o_def del: upt_rec_numeral)
qed

lemma block_map_list:
  "map (block_map B 8) [0..<16] = map (\<lambda>j. if j < 8 then word_of_int (B + 1 + int j) else 0) [0..<16]"
  "map (block_map B 9) [0..<16] = map (\<lambda>j. if j < 9 then word_of_int (B + 1 + int j) else 0) [0..<16]"
  "map (block_map B 16) [0..<16] = map (\<lambda>j. word_of_int (B + 1 + int j)) [0..<16]"
  "map (block_map B 0) [0..<16] = replicate 16 0"
  by (simp_all add: block_map_def block_map_0 map_replicate_const del: upt_rec_numeral)

text \<open>
  The run on an empty source: the loop body is never entered and the final \<open>save_FCB\<close>
  writes the initialised buffer at the address of slot \<open>lastLiveEntryIndex + 1\<close>.
\<close>

lemma slot_127_offset: "convert_addr (head_addr_of_FCB 127) = 22416"
  by (simp add: FCB_offset)

lemma slot_128_offset: "convert_addr (head_addr_of_FCB 128) = 22464"
  by (simp add: FCB_offset)

lemma block_2_offset: "convert_addr (head_addr_of_record 32) = 22464"
  by (simp add: record_offset)

lemma last_slot_image_entry: "directory_entry last_slot_image 127 = last_slot_entry"
  by (rule nth_equalityI)
     (simp_all add: length_directory_entry directory_entry_nth slot_127_offset
        last_slot_image_def last_slot_entry_def)

lemma last_slot_live: "live last_slot_image 127"
  by (simp add: live_def last_slot_image_entry last_slot_entry_def)

lemma last_slot_dead_below:
  assumes "i < 127"
  shows "\<not> live last_slot_image (int i)"
proof -
  have "convert_addr (head_addr_of_FCB (int i)) + 32 \<le> convert_addr (head_addr_of_FCB 127)"
    using assms by (intro FCB_offset_mono) simp_all
  then have "convert_addr (head_addr_of_FCB (int i)) < 22416" by (simp add: slot_127_offset)
  then show ?thesis
    by (simp add: live_def directory_entry_nth last_slot_image_def)
qed

lemma last_slot_scan:
  "\<not> duplicateFound sc last_slot_image (c_string ''a.b'')"
  "lastLiveEntryIndex sc last_slot_image (c_string ''a.b'') = 127"
proof -
  let ?fn = "c_string ''a.b''" and ?img = last_slot_image
  from a_b_dot obtain nm ex where
    s1: "separate_name ?fn (initial_state ?img)
           = Inr ((initial_state ?img)\<lparr>name := nm, extension := ex\<rparr>)"
    by (rule separate_name_dot)
  have p: "projr (separate_name ?fn (initial_state ?img))
             = (initial_state ?img)\<lparr>name := nm, extension := ex\<rparr>"
    by (simp add: s1)
  have nm: "nm = name (before_loop sc ?img ?fn)"
    by (simp add: before_loop_names [OF a_b_dot] p)
  have n0: "nm ! 0 = 0x41" unfolding nm by (simp add: a_b_names)
  have nomatch: "\<not> names_match (directory_entry ?img 127) nm ex"
    by (simp add: names_match_def last_slot_image_entry last_slot_entry_def n0 upt_conv_Cons)
  have S: "(128::nat) = Suc 127" by simp
  have d0: "scan_dup ?img nm ex 127 0 = 0"
    by (rule scan_dup_none) (simp add: last_slot_dead_below)
  have d: "scan_dup ?img nm ex 128 0 = 0"
    unfolding S scan_dup.simps using nomatch d0 by simp
  have l: "scan_last_live ?img 128 (- 1) = 127"
    unfolding S scan_last_live.simps using last_slot_live by simp
  show "\<not> duplicateFound sc ?img ?fn"
    unfolding duplicateFound_def p by (simp add: same_name_check_eq initial_state_def d)
  show "lastLiveEntryIndex sc ?img ?fn = 127"
    unfolding lastLiveEntryIndex_def before_loop_def p
    by (simp add: same_name_check_eq initial_state_def l init_FCB_buf_eq init_record_buf_eq
        length_directory_entry)
qed

lemma empty_source_run:
  assumes "0x2E \<in> set fn" and "\<not> duplicateFound sc img fn"
  shows "final_outcome (main sc img fn []) = Inr Done"
    and "final_image (main sc img fn [])
        = file_write img (convert_addr (head_addr_of_FCB (lastLiveEntryIndex sc img fn + 1)))
            (make_entry (name (before_loop sc img fn)) (extension (before_loop sc img fn)) 0 0 (\<lambda>j. 0))"
proof -
  let ?F = "lastLiveEntryIndex sc img fn" and ?B = "lastUsedBlock sc img fn"
  let ?nm = "name (before_loop sc img fn)" and ?ex = "extension (before_loop sc img fn)"
  let ?e = "make_entry ?nm ?ex 0 0 (\<lambda>j. 0)"
  have f0: "fcb_after ?nm ?ex ?B 0 = ?e" by (simp add: fcb_after_def block_map_0)
  show "final_outcome (main sc img fn []) = Inr Done"
    using assms by (intro main_small(1) [of fn sc img 0]) simp_all
  show "final_image (main sc img fn [])
             = file_write img (convert_addr (head_addr_of_FCB (?F + 1))) ?e"
    using main_small(2) [of fn sc img 0 "[]"] assms by (simp add: f0)
qed

lemma empty_source_entry:
  assumes "0x2E \<in> set fn" and "\<not> duplicateFound sc img fn"
    and "lastLiveEntryIndex sc img fn + 1 < num_of_FCBs"
  shows "changed_entries img (final_image (main sc img fn []))
           = [nat (lastLiveEntryIndex sc img fn + 1)]"
    and "directory_entry (final_image (main sc img fn [])) (lastLiveEntryIndex sc img fn + 1)
           = make_entry (name (before_loop sc img fn)) (extension (before_loop sc img fn)) 0 0 (\<lambda>j. 0)"
    and "directory_entry (final_image (main sc img fn [])) (lastLiveEntryIndex sc img fn + 1) ! 15 = 0"
    and "drop 16 (directory_entry (final_image (main sc img fn [])) (lastLiveEntryIndex sc img fn + 1))
           = replicate 16 0"
proof -
  let ?F = "lastLiveEntryIndex sc img fn"
  let ?e = "make_entry (name (before_loop sc img fn)) (extension (before_loop sc img fn)) 0 0 (\<lambda>j. 0)"
  show "changed_entries img (final_image (main sc img fn [])) = [nat (?F + 1)]"
    using main_small_directory(2) [of fn sc img 0 "[]"] assms by (simp add: num_of_FCBs_eq)
  show d: "directory_entry (final_image (main sc img fn [])) (?F + 1) = ?e"
    unfolding empty_source_run(2) [OF assms(1,2)]
    by (simp add: directory_entry_write_same length_make_entry)
  show "directory_entry (final_image (main sc img fn [])) (?F + 1) ! 15 = 0"
    "drop 16 (directory_entry (final_image (main sc img fn [])) (?F + 1)) = replicate 16 0"
    unfolding d by (simp_all add: make_entry_fields make_entry_map map_replicate_const
        del: upt_rec_numeral)
qed

lemma a_b_entry:
  "make_entry (name (before_loop sc img (c_string ''a.b''))) (extension (before_loop sc img (c_string ''a.b''))) 0 0 (\<lambda>j. 0)
     = [0, 0x41, 0x20, 0x20, 0x20, 0x20, 0x20, 0x20, 0x20, 0x42, 0x20, 0x20, 0, 0, 0, 0,
        0, 0, 0, 0, 0, 0, 0, 0, 0, 0, 0, 0, 0, 0, 0, 0]"
  by (simp add: a_b_names make_entry_def entry_byte_def upt_conv_Cons)

text \<open>
  Claim C10. An empty source is to leave exactly one new directory entry, in slot
  \<open>lastLiveEntryIndex + 1\<close>. The loop tests the slot number against \<open>num_of_FCBs\<close> before
  it writes; the final \<open>save_FCB\<close> does not. On the disk whose slot 127 is live the slot
  number is 128 and its address is that of record 0 of data block 2: the run reports
  success, no directory slot has changed, and the first 32 bytes of block 2, which the
  entry in slot 127 names, are overwritten with the entry of the new file.
\<close>

theorem empty_file_overwrites_block_2:
  "\<not> duplicateFound True last_slot_image (c_string ''a.b'')
   \<and> lastLiveEntryIndex True last_slot_image (c_string ''a.b'') = 127
   \<and> final_outcome (main True last_slot_image (c_string ''a.b'') []) = Inr Done
   \<and> changed_entries last_slot_image
        (final_image (main True last_slot_image (c_string ''a.b'') [])) = []
   \<and> drop 16 (directory_entry last_slot_image 127) = [2, 0, 0, 0, 0, 0, 0, 0, 0, 0, 0, 0, 0, 0, 0, 0]
   \<and> take 32 (record_at last_slot_image (RPD * 2)) = replicate 32 0xE5
   \<and> take 32 (record_at (final_image (main True last_slot_image (c_string ''a.b'') [])) (RPD * 2))
       = [0, 0x41, 0x20, 0x20, 0x20, 0x20, 0x20, 0x20, 0x20, 0x42, 0x20, 0x20, 0, 0, 0, 0,
          0, 0, 0, 0, 0, 0, 0, 0, 0, 0, 0, 0, 0, 0, 0, 0]"
proof -
  let ?img = last_slot_image and ?fn = "c_string ''a.b''"
  let ?e = "make_entry (name (before_loop True ?img ?fn)) (extension (before_loop True ?img ?fn)) 0 0 (\<lambda>j. 0)"
  note s = last_slot_scan [of True]
  note r = empty_source_run [OF a_b_dot s(1)]
  have fi: "final_image (main True ?img ?fn []) = file_write ?img 22464 ?e"
    using r(2) by (simp add: s(2) slot_128_offset)
  have "directory_entry (file_write ?img (convert_addr (head_addr_of_FCB 128)) ?e) (int i)
          = directory_entry ?img (int i)" if "i < 128" for i
    using that by (intro directory_entry_write_other) (simp_all add: length_make_entry)
  then have c: "changed_entries ?img (final_image (main True ?img ?fn [])) = []"
    unfolding fi by (intro changed_entries_none) (simp add: slot_128_offset)
  have m: "drop 16 (directory_entry ?img 127) = [2, 0, 0, 0, 0, 0, 0, 0, 0, 0, 0, 0, 0, 0, 0, 0]"
    by (simp add: last_slot_image_entry last_slot_entry_def)
  have before: "take 32 (record_at ?img (RPD * 2)) = replicate 32 0xE5"
    by (rule nth_equalityI)
       (simp_all add: record_at_def RPD_def block_2_offset file_read_def last_slot_image_def
          del: upt_rec_numeral)
  have after: "take 32 (record_at (final_image (main True ?img ?fn [])) (RPD * 2)) = ?e"
    unfolding fi
    by (rule nth_equalityI)
       (simp_all add: record_at_def RPD_def block_2_offset file_read_def file_write_def
          length_make_entry del: upt_rec_numeral)
  show ?thesis
    using s r(1) c m before after unfolding a_b_entry by (intro conjI)
qed

lemma fcb_after_128: "fcb_after nm ex B 128 = make_entry nm ex 0 128 (block_map B 8)"
  by (simp add: fcb_after_def)

lemma fcb_after_129: "fcb_after nm ex B 129 = make_entry nm ex 1 1 (block_map B 9)"
  by (simp add: fcb_after_def)

text \<open>
  Claim C6, as amended. A data block has 2048 bytes, 16 records, so the 128 records of a
  16384-byte source fill 8 blocks. When the name is new, 8 blocks are free behind the last
  used one and slot \<open>lastLiveEntryIndex + 2\<close> is in the directory, the run reports
  success and changes that one slot only; the entry has extent byte 0, record count 0x80
  and a map of the 8 block numbers after \<open>lastUsedBlock\<close> followed by 8 zero bytes.
\<close>

theorem full_extent_entry:
  assumes "0x2E \<in> set fn" and "\<not> duplicateFound sc img fn" and "length src = 16384"
    and "lastUsedBlock sc img fn + 8 < num_of_data_blocks"
    and "lastLiveEntryIndex sc img fn + 2 < num_of_FCBs"
  shows "final_outcome (main sc img fn src) = Inr Done
    \<and> changed_entries img (final_image (main sc img fn src))
        = [nat (lastLiveEntryIndex sc img fn + 2)]
    \<and> directory_entry (final_image (main sc img fn src)) (lastLiveEntryIndex sc img fn + 2)
        = make_entry (name (before_loop sc img fn)) (extension (before_loop sc img fn)) 0 128
            (block_map (lastUsedBlock sc img fn) 8)
    \<and> directory_entry (final_image (main sc img fn src)) (lastLiveEntryIndex sc img fn + 2) ! 15
        = 0x80
    \<and> drop 16 (directory_entry (final_image (main sc img fn src)) (lastLiveEntryIndex sc img fn + 2))
        = map (\<lambda>j. if j < 8 then word_of_int (lastUsedBlock sc img fn + 1 + int j) else 0) [0..<16]
    \<and> length (filter (\<lambda>b. b \<noteq> 0)
         (drop 16 (directory_entry (final_image (main sc img fn src))
                     (lastLiveEntryIndex sc img fn + 2)))) = 8"
proof -
  let ?F = "lastLiveEntryIndex sc img fn" and ?B = "lastUsedBlock sc img fn"
  let ?nm = "name (before_loop sc img fn)" and ?ex = "extension (before_loop sc img fn)"
  let ?img' = "final_image (main sc img fn src)"
  have B: "1 \<le> ?B" "?B \<le> 143" and F: "?F + 2 < 128"
    using assms before_loop_facts(4) [OF assms(1)]
    by (simp_all add: num_of_data_blocks_eq num_of_FCBs_eq)
  have cap: "(128::nat) = 0 \<or> ?F + int (128 - 1) div 128 < 128 \<and> 16 * (?B + 1) + int (128 - 1) < 2432"
    using B F by simp
  have o: "final_outcome (main sc img fn src) = Inr Done"
    using assms(1,2) _ _ _ cap by (rule main_small(1)) (simp_all add: assms(3))
  have k: "?F + 1 + (int 128 div 128) mod 2 = ?F + 2" by simp
  have d: "directory_entry ?img' (?F + 2) = make_entry ?nm ?ex 0 128 (block_map ?B 8)"
    using main_small_directory(1) [OF assms(1,2) _ _ _ cap, of src] F assms(3)
    by (simp add: fcb_after_128 add.commute)
  have c: "changed_entries img ?img' = [nat (?F + 2)]"
    using main_small_directory(2) [OF assms(1,2) _ _ _ cap, of src] F assms(3)
    by (simp add: add.commute)
  have r: "directory_entry ?img' (?F + 2) ! 15 = 0x80"
    "drop 16 (directory_entry ?img' (?F + 2))
       = map (\<lambda>j. if j < 8 then word_of_int (?B + 1 + int j) else 0) [0..<16]"
    unfolding d by (simp_all add: make_entry_fields make_entry_map block_map_list
        del: upt_rec_numeral)
  have n: "length (filter (\<lambda>b. b \<noteq> 0) (drop 16 (directory_entry ?img' (?F + 2)))) = 8"
    unfolding d make_entry_map using block_map_count [of ?B 8] B by simp
  show ?thesis
    using o c d r n by (intro conjI)
qed


lemma blank_run_small:
  assumes N: "0 < N" "N \<le> 129" and len: "length src \<le> 128 * N" "128 * (N - 1) < length src"
  shows "final_outcome (main True blank_image (c_string ''a.b'') src) = Inr Done"
    and "changed_entries blank_image (final_image (main True blank_image (c_string ''a.b'') src))
           = [nat (int N div 128 mod 2)]"
    and "directory_entry (final_image (main True blank_image (c_string ''a.b'') src))
           (int N div 128 mod 2)
           = fcb_after [0x41, 0x20, 0x20, 0x20, 0x20, 0x20, 0x20, 0x20, 0] [0x42, 0x20, 0x20, 0] 1 N"
proof -
  note b = blank_scan [OF a_b_dot, of True]
  have "int (N - 1) div 128 \<le> 128 div 128" using N by (intro zdiv_mono1) simp_all
  then have cap: "N = 0 \<or> lastLiveEntryIndex True blank_image (c_string ''a.b'') + int (N - 1) div 128 < 128
      \<and> 16 * (lastUsedBlock True blank_image (c_string ''a.b'') + 1) + int (N - 1) < 2432"
    using N by (simp add: b)
  have "int N div 128 \<le> 129 div 128" using N by (intro zdiv_mono1) simp_all
  then have "int N div 128 mod 2 \<le> 1" by simp
  then have slot: "lastLiveEntryIndex True blank_image (c_string ''a.b'') + 1 + int N div 128 mod 2 < 128"
    by (simp add: b)
  have N': "N \<le> 255" and len': "N = 0 \<or> 128 * (N - 1) < length src" using N len by simp_all
  show "final_outcome (main True blank_image (c_string ''a.b'') src) = Inr Done"
    using a_b_dot b(1) N' len(1) len' cap by (rule main_small(1))
  show "changed_entries blank_image (final_image (main True blank_image (c_string ''a.b'') src))
           = [nat (int N div 128 mod 2)]"
    using main_small_directory(2) [OF a_b_dot b(1) N' len(1) len' cap slot] by (simp add: b)
  show "directory_entry (final_image (main True blank_image (c_string ''a.b'') src))
           (int N div 128 mod 2)
           = fcb_after [0x41, 0x20, 0x20, 0x20, 0x20, 0x20, 0x20, 0x20, 0] [0x42, 0x20, 0x20, 0] 1 N"
    using main_small_directory(1) [OF a_b_dot b(1) N' len(1) len' cap slot]
    by (simp add: b a_b_names)
qed

theorem full_extent_entry_witness:
  "length bytes_16384 = 16384 \<and> \<not> duplicateFound True blank_image (c_string ''a.b'')
   \<and> final_outcome (main True blank_image (c_string ''a.b'') bytes_16384) = Inr Done
   \<and> changed_entries blank_image (final_image (main True blank_image (c_string ''a.b'') bytes_16384))
       = [1]
   \<and> directory_entry (final_image (main True blank_image (c_string ''a.b'') bytes_16384)) 1 ! 15
       = 0x80"
proof -
  note b = blank_scan [OF a_b_dot, of True]
  have len: "length bytes_16384 = 16384" by (simp add: bytes_16384_def)
  have room: "lastUsedBlock True blank_image (c_string ''a.b'') + 8 < num_of_data_blocks"
    "lastLiveEntryIndex True blank_image (c_string ''a.b'') + 2 < num_of_FCBs"
    by (simp_all add: b num_of_data_blocks_eq num_of_FCBs_eq)
  show ?thesis
    using full_extent_entry [OF a_b_dot b(1) len room] b len by (simp add: make_entry_fields)
qed

theorem full_extent_map_counterexample:
  "final_outcome (main True blank_image (c_string ''a.b'') bytes_16384) = Inr Done
   \<and> changed_entries blank_image (final_image (main True blank_image (c_string ''a.b'') bytes_16384))
       = [1]
   \<and> drop 16 (directory_entry (final_image (main True blank_image (c_string ''a.b'') bytes_16384)) 1)
       = [2, 3, 4, 5, 6, 7, 8, 9, 0, 0, 0, 0, 0, 0, 0, 0]"
proof -
  have len: "length bytes_16384 \<le> 128 * 128" "128 * (128 - 1) < length bytes_16384"
    by (simp_all add: bytes_16384_def)
  have m: "map (block_map 1 8) [0..<16] = [2, 3, 4, 5, 6, 7, 8, 9, 0, 0, 0, 0, 0, 0, 0, 0]"
    by (simp add: block_map_def upt_conv_Cons)
  show ?thesis
    using blank_run_small [of 128 bytes_16384] len
    by (simp add: fcb_after_128 make_entry_map m del: upt_rec_numeral)
qed

text \<open>
  Claim C1, as amended. A source of 16385 bytes has 129 records. The loop stores an entry
  only when the 256th record is written, so the 129 records end in the one entry of the
  final \<open>save_FCB\<close>: the run changes a single directory slot, whose entry carries the
  encoded name and extension, extent byte 1, record count 1 and a map of the 9 block numbers
  after \<open>lastUsedBlock\<close>. (Hypotheses: a new name, 9 free blocks and slot
  \<open>lastLiveEntryIndex + 2\<close> inside the directory.)
\<close>

theorem one_byte_over_entry:
  assumes "0x2E \<in> set fn" and "\<not> duplicateFound sc img fn" and "length src = 16385"
    and "lastUsedBlock sc img fn + 9 < num_of_data_blocks"
    and "lastLiveEntryIndex sc img fn + 2 < num_of_FCBs"
  shows "final_outcome (main sc img fn src) = Inr Done
    \<and> changed_entries img (final_image (main sc img fn src))
        = [nat (lastLiveEntryIndex sc img fn + 2)]
    \<and> directory_entry (final_image (main sc img fn src)) (lastLiveEntryIndex sc img fn + 2)
        = make_entry (name (before_loop sc img fn)) (extension (before_loop sc img fn)) 1 1
            (block_map (lastUsedBlock sc img fn) 9)
    \<and> take 8 (drop 1 (directory_entry (final_image (main sc img fn src))
                         (lastLiveEntryIndex sc img fn + 2)))
        = take 8 (name (before_loop sc img fn))
    \<and> take 3 (drop 9 (directory_entry (final_image (main sc img fn src))
                         (lastLiveEntryIndex sc img fn + 2)))
        = take 3 (extension (before_loop sc img fn))
    \<and> directory_entry (final_image (main sc img fn src)) (lastLiveEntryIndex sc img fn + 2) ! 12 = 1
    \<and> directory_entry (final_image (main sc img fn src)) (lastLiveEntryIndex sc img fn + 2) ! 15 = 1
    \<and> drop 16 (directory_entry (final_image (main sc img fn src)) (lastLiveEntryIndex sc img fn + 2))
        = map (\<lambda>j. if j < 9 then word_of_int (lastUsedBlock sc img fn + 1 + int j) else 0) [0..<16]"
proof -
  let ?F = "lastLiveEntryIndex sc img fn" and ?B = "lastUsedBlock sc img fn"
  let ?nm = "name (before_loop sc img fn)" and ?ex = "extension (before_loop sc img fn)"
  let ?img' = "final_image (main sc img fn src)"
  have B: "?B \<le> 142" and F: "?F + 2 < 128"
    using assms by (simp_all add: num_of_data_blocks_eq num_of_FCBs_eq)
  have cap: "(129::nat) = 0 \<or> ?F + int (129 - 1) div 128 < 128 \<and> 16 * (?B + 1) + int (129 - 1) < 2432"
    using B F by simp
  have o: "final_outcome (main sc img fn src) = Inr Done"
    using assms(1,2) _ _ _ cap by (rule main_small(1)) (simp_all add: assms(3))
  have d: "directory_entry ?img' (?F + 2) = make_entry ?nm ?ex 1 1 (block_map ?B 9)"
    using main_small_directory(1) [OF assms(1,2) _ _ _ cap, of src] F assms(3)
    by (simp add: fcb_after_129 add.commute)
  have c: "changed_entries img ?img' = [nat (?F + 2)]"
    using main_small_directory(2) [OF assms(1,2) _ _ _ cap, of src] F assms(3)
    by (simp add: add.commute)
  have r1: "take 8 (drop 1 (directory_entry ?img' (?F + 2))) = take 8 ?nm"
    unfolding d by (rule make_entry_name) (simp add: before_loop_facts [OF assms(1)])
  have r2: "take 3 (drop 9 (directory_entry ?img' (?F + 2))) = take 3 ?ex"
    unfolding d by (rule make_entry_extension) (simp add: before_loop_facts [OF assms(1)])
  have r: "directory_entry ?img' (?F + 2) ! 12 = 1"
    "directory_entry ?img' (?F + 2) ! 15 = 1"
    "drop 16 (directory_entry ?img' (?F + 2))
       = map (\<lambda>j. if j < 9 then word_of_int (?B + 1 + int j) else 0) [0..<16]"
    unfolding d
    by (simp_all add: make_entry_fields make_entry_map block_map_list del: upt_rec_numeral)
  show ?thesis
    using o c d r1 r2 r by (intro conjI)
qed

theorem one_byte_over_entry_witness:
  "length bytes_16385 = 16385 \<and> \<not> duplicateFound True blank_image (c_string ''a.b'')
   \<and> final_outcome (main True blank_image (c_string ''a.b'') bytes_16385) = Inr Done
   \<and> changed_entries blank_image (final_image (main True blank_image (c_string ''a.b'') bytes_16385))
       = [1]
   \<and> directory_entry (final_image (main True blank_image (c_string ''a.b'') bytes_16385)) 1 ! 12 = 1"
proof -
  note b = blank_scan [OF a_b_dot, of True]
  have len: "length bytes_16385 = 16385" by (simp add: bytes_16385_def)
  have room: "lastUsedBlock True blank_image (c_string ''a.b'') + 9 < num_of_data_blocks"
    "lastLiveEntryIndex True blank_image (c_string ''a.b'') + 2 < num_of_FCBs"
    by (simp_all add: b num_of_data_blocks_eq num_of_FCBs_eq)
  show ?thesis
    using one_byte_over_entry [OF a_b_dot b(1) len room] b len by (simp add: make_entry_fields)
qed

theorem one_byte_over_counterexample:
  "final_outcome (main True blank_image (c_string ''a.b'') bytes_16385) = Inr Done
   \<and> changed_entries blank_image (final_image (main True blank_image (c_string ''a.b'') bytes_16385))
       = [1]
   \<and> directory_entry (final_image (main True blank_image (c_string ''a.b'') bytes_16385)) 1 ! 12 = 1
   \<and> directory_entry (final_image (main True blank_image (c_string ''a.b'') bytes_16385)) 1 ! 15 = 1"
proof -
  have len: "length bytes_16385 \<le> 128 * 129" "128 * (129 - 1) < length bytes_16385"
    by (simp_all add: bytes_16385_def)
  show ?thesis
    using blank_run_small [of 129 bytes_16385] len
    by (simp add: fcb_after_129 make_entry_fields)
qed

section \<open>Sources of 256 records\<close>

lemma file_write_twice:
  "length a = length b \<Longrightarrow> file_write (file_write f off a) off b = file_write f off b"
  by (rule ext) (simp add: file_write_def)

lemma chunk_take:
  assumes "k < n"
  shows "chunk (take (128 * n) src) k = chunk src k"
proof -
  have "128 \<le> 128 * n - 128 * k" using assms by simp
  then have "take 128 (drop (128 * k) (take (128 * n) src)) = take 128 (drop (128 * k) src)"
    by (simp add: drop_take min_def)
  then show ?thesis by (simp only: chunk_def)
qed

lemma put_records_cong:
  "(\<And>k. k < n \<Longrightarrow> chunk src' k = chunk src k) \<Longrightarrow>
     put_records B src' n img = put_records B src n img"
  by (induction n) simp_all

lemma loop_state_take:
  "loop_state img nm ex F B (take (128 * n) src) n = loop_state img nm ex F B src n"
  using put_records_cong [of n "take (128 * n) src" src B img]
  by (simp add: loop_state_def chunk_take)

lemma loop_state_0: "loop_state img nm ex F B src 0 = loop_state img nm ex F B src' 0"
  by (simp add: loop_state_def)

lemma fcb_after_256: "fcb_after nm ex B 256 = make_entry nm ex 1 128 (block_map B 16)"
  by (simp add: fcb_after_def)

text \<open>The loop over the first 128 records of a source of 256 records, and over all of them.\<close>

lemma loop_128_of_256:
  fixes sc img fn src
  defines "F \<equiv> lastLiveEntryIndex sc img fn" and "B \<equiv> lastUsedBlock sc img fn"
    and "nm \<equiv> name (before_loop sc img fn)" and "ex \<equiv> extension (before_loop sc img fn)"
  assumes dot: "0x2E \<in> set fn"
    and len: "128 * 127 < length src"
    and cap: "F < 128" "16 * (B + 1) + 127 < 2432"
  shows "write_loop (take 16384 src) (before_loop sc img fn) = (True, loop_state img nm ex F B src 128)"
    and "write_loop src (before_loop sc img fn)
           = write_loop (drop 16384 src) (loop_state img nm ex F B src 128)"
proof -
  have b: "before_loop sc img fn = loop_state img nm ex F B s 0" for s
    unfolding F_def B_def nm_def ex_def using dot by (rule before_loop_eq)
  have c: "(128::nat) = 0 \<or> F + int (128 - 1) div 128 < 128 \<and> 16 * (B + 1) + int (128 - 1) < 2432"
    using cap by simp
  have "write_loop (take 16384 src) (loop_state img nm ex F B (take 16384 src) 0)
          = (True, loop_state img nm ex F B (take 16384 src) 128)"
    using _ _ _ c by (rule write_loop_small) (use len in simp_all)
  moreover have "loop_state img nm ex F B (take 16384 src) 128 = loop_state img nm ex F B src 128"
    using loop_state_take [of img nm ex F B 128 src] by simp
  ultimately show "write_loop (take 16384 src) (before_loop sc img fn)
      = (True, loop_state img nm ex F B src 128)"
    by (simp only: b [of "take 16384 src"])
  have "128 * k < length src \<and> F + int k div 128 < 128 \<and> 16 * (B + 1) + int k < 2432"
    if "k < 128" for k
  proof -
    from that have "k \<le> 127" by simp
    with len cap capacity_below [of k 127 F B] show ?thesis by auto
  qed
  then have "write_loop src (loop_state img nm ex F B src 0)
           = write_loop (drop (128 * 128) src) (loop_state img nm ex F B src 128)"
    by (intro write_loop_advance) simp_all
  then show "write_loop src (before_loop sc img fn)
           = write_loop (drop 16384 src) (loop_state img nm ex F B src 128)"
    by (simp add: b [of src])
qed

lemma loop_256:
  fixes sc img fn src
  defines "F \<equiv> lastLiveEntryIndex sc img fn" and "B \<equiv> lastUsedBlock sc img fn"
    and "nm \<equiv> name (before_loop sc img fn)" and "ex \<equiv> extension (before_loop sc img fn)"
  assumes dot: "0x2E \<in> set fn"
    and len: "128 * 255 < length src" "length src \<le> 128 * 256"
    and cap: "F + 1 < 128" "16 * (B + 1) + 255 < 2432"
  shows "write_loop src (before_loop sc img fn) = (True, state_after_256 img nm ex F B src)"
proof -
  have b: "before_loop sc img fn = loop_state img nm ex F B src 0"
    unfolding F_def B_def nm_def ex_def using dot by (rule before_loop_eq)
  show ?thesis unfolding b using len cap by (rule write_loop_256)
qed

lemma directory_after_256:
  assumes F: "- 1 \<le> F" "F + 1 < 128" and B: "1 \<le> B" "16 * (B + 1) + 255 < 2432"
    and dead: "\<not> live img (F + 1)"
  shows "directory_entry (image_file (state_after_256 img nm ex F B src)) (F + 1)
           = make_entry nm ex 1 128 (block_map B 16)"
    and "changed_entries img (image_file (state_after_256 img nm ex F B src)) = [nat (F + 1)]"
    and "directory_entry
           (image_file (save_FCB (state_after_256 img nm ex F B src) (F + 1))) (F + 1)
           = make_entry nm ex 0 0 (\<lambda>j. 0)"
    and "changed_entries img
           (image_file (save_FCB (state_after_256 img nm ex F B src) (F + 1))) = [nat (F + 1)]"
proof -
  have k: "0 \<le> F + 1" using F by simp
  have room: "16 * (B + 1) + int 256 \<le> 4096" using B by simp
  have i: "image_file (state_after_256 img nm ex F B src)
      = file_write (put_records B src 256 img) (convert_addr (head_addr_of_FCB (F + 1)))
          (make_entry nm ex 1 128 (block_map B 16))"
    by (simp add: state_after_256_def fcb_after_256)
  have j: "image_file (save_FCB (state_after_256 img nm ex F B src) (F + 1))
      = file_write (put_records B src 256 img) (convert_addr (head_addr_of_FCB (F + 1)))
          (make_entry nm ex 0 0 (\<lambda>j. 0))"
    by (simp add: save_FCB_def state_after_256_def fcb_after_256 length_make_entry
        file_write_twice block_map_0)
  show "directory_entry (image_file (state_after_256 img nm ex F B src)) (F + 1)
           = make_entry nm ex 1 128 (block_map B 16)"
    unfolding i using k F(2) B(1) room _ _ dead
    by (rule final_directory(1)) (simp_all add: length_make_entry make_entry_fields)
  show "changed_entries img (image_file (state_after_256 img nm ex F B src)) = [nat (F + 1)]"
    unfolding i using k F(2) B(1) room _ _ dead
    by (rule final_directory(2)) (simp_all add: length_make_entry make_entry_fields)
  show "directory_entry
           (image_file (save_FCB (state_after_256 img nm ex F B src) (F + 1))) (F + 1)
           = make_entry nm ex 0 0 (\<lambda>j. 0)"
    unfolding j using k F(2) B(1) room _ _ dead
    by (rule final_directory(1)) (simp_all add: length_make_entry make_entry_fields)
  show "changed_entries img
           (image_file (save_FCB (state_after_256 img nm ex F B src) (F + 1))) = [nat (F + 1)]"
    unfolding j using k F(2) B(1) room _ _ dead
    by (rule final_directory(2)) (simp_all add: length_make_entry make_entry_fields)
qed

lemma dead_above:
  assumes "0x2E \<in> set fn" "lastLiveEntryIndex sc img fn < k" "k < 128"
  shows "\<not> live img k"
proof -
  have "- 1 \<le> lastLiveEntryIndex sc img fn" using assms(1) by (rule before_loop_facts(5))
  with assms have "lastLiveEntryIndex sc img fn < int (nat k)" "nat k < 128" by simp_all
  then have "\<not> live img (int (nat k))" by (rule before_loop_facts(7) [OF assms(1)])
  moreover have "int (nat k) = k"
    using assms(2) \<open>- 1 \<le> lastLiveEntryIndex sc img fn\<close> by simp
  ultimately show ?thesis by simp
qed

text \<open>
  Claim C9. For a source of exactly 32768 bytes (256 records) with a new name, room for
  16 blocks and \<open>lastLiveEntryIndex + 1\<close> inside the directory: the loop ends with the full
  entry (extent byte 1, record count 0x80, 16 block numbers) stored in slot
  \<open>lastLiveEntryIndex + 1\<close> and the buffer initialised again; the final \<open>save_FCB\<close>
  computes the same slot and leaves there an entry with record count 0 and an all-zero
  map; the run reports success and that slot is the only one changed.
\<close>

theorem two_extents_overwritten:
  assumes "0x2E \<in> set fn" and "\<not> duplicateFound sc img fn" and "length src = 32768"
    and "lastUsedBlock sc img fn + 16 < num_of_data_blocks"
    and "lastLiveEntryIndex sc img fn + 1 < num_of_FCBs"
  shows "fst (write_loop src (before_loop sc img fn))
    \<and> directory_entry (image_file (snd (write_loop src (before_loop sc img fn))))
          (lastLiveEntryIndex sc img fn + 1)
        = make_entry (name (before_loop sc img fn)) (extension (before_loop sc img fn)) 1 128
            (block_map (lastUsedBlock sc img fn) 16)
    \<and> FCB_buff (snd (write_loop src (before_loop sc img fn)))
        = make_entry (name (before_loop sc img fn)) (extension (before_loop sc img fn)) 0 0 (\<lambda>j. 0)
    \<and> last_living_FCB_num (snd (write_loop src (before_loop sc img fn))) + 1
          + used_FCBs (snd (write_loop src (before_loop sc img fn))) smod 2
        = lastLiveEntryIndex sc img fn + 1
    \<and> final_outcome (main sc img fn src) = Inr Done
    \<and> directory_entry (final_image (main sc img fn src)) (lastLiveEntryIndex sc img fn + 1)
        = make_entry (name (before_loop sc img fn)) (extension (before_loop sc img fn)) 0 0 (\<lambda>j. 0)
    \<and> directory_entry (final_image (main sc img fn src)) (lastLiveEntryIndex sc img fn + 1) ! 15 = 0
    \<and> drop 16 (directory_entry (final_image (main sc img fn src)) (lastLiveEntryIndex sc img fn + 1))
        = replicate 16 0
    \<and> changed_entries img (final_image (main sc img fn src))
        = [nat (lastLiveEntryIndex sc img fn + 1)]"
proof -
  let ?F = "lastLiveEntryIndex sc img fn" and ?B = "lastUsedBlock sc img fn"
  let ?nm = "name (before_loop sc img fn)" and ?ex = "extension (before_loop sc img fn)"
  let ?S = "state_after_256 img ?nm ?ex ?F ?B src"
  have F: "- 1 \<le> ?F" "?F + 1 < 128" and B: "1 \<le> ?B" "16 * (?B + 1) + 255 < 2432"
    using assms before_loop_facts(4,5) [OF assms(1)]
    by (simp_all add: num_of_data_blocks_eq num_of_FCBs_eq)
  have dead: "\<not> live img (?F + 1)"
    using dead_above [OF assms(1), of sc img "?F + 1"] F(2) by simp
  have w: "write_loop src (before_loop sc img fn) = (True, ?S)"
    using assms(1) _ _ F(2) B(2) by (rule loop_256) (simp_all add: assms(3))
  have sel: "last_living_FCB_num ?S + 1 + used_FCBs ?S smod 2 = ?F + 1"
    "FCB_buff ?S = make_entry ?nm ?ex 0 0 (\<lambda>j. 0)"
    by (simp_all add: state_after_256_def block_map_0)
  have m: "main sc img fn src = Inr (Done, save_FCB ?S (?F + 1))"
    by (simp add: main_eq [OF assms(1,2)] w sel)
  note d = directory_after_256 [OF F B dead, of ?nm ?ex src]
  have fi: "final_image (main sc img fn src) = image_file (save_FCB ?S (?F + 1))"
    by (simp add: m final_image_def)
  have e: "directory_entry (final_image (main sc img fn src)) (?F + 1)
             = make_entry ?nm ?ex 0 0 (\<lambda>j. 0)"
    unfolding fi by (rule d(3))
  have r: "directory_entry (final_image (main sc img fn src)) (?F + 1) ! 15 = 0"
    "drop 16 (directory_entry (final_image (main sc img fn src)) (?F + 1)) = replicate 16 0"
    unfolding e by (simp_all add: make_entry_fields make_entry_map map_replicate_const
        del: upt_rec_numeral)
  have c: "changed_entries img (final_image (main sc img fn src)) = [nat (?F + 1)]"
    unfolding fi by (rule d(4))
  have o: "final_outcome (main sc img fn src) = Inr Done"
    by (simp add: m final_outcome_def)
  have l: "fst (write_loop src (before_loop sc img fn))"
    "directory_entry (image_file (snd (write_loop src (before_loop sc img fn)))) (?F + 1)
        = make_entry ?nm ?ex 1 128 (block_map ?B 16)"
    "FCB_buff (snd (write_loop src (before_loop sc img fn))) = make_entry ?nm ?ex 0 0 (\<lambda>j. 0)"
    "last_living_FCB_num (snd (write_loop src (before_loop sc img fn))) + 1
          + used_FCBs (snd (write_loop src (before_loop sc img fn))) smod 2 = ?F + 1"
    unfolding w using d(1) sel by simp_all
  show ?thesis
    using l o e r c by (intro conjI)
qed

theorem two_extents_overwritten_witness:
  "length bytes_32768 = 32768 \<and> \<not> duplicateFound True blank_image (c_string ''a.b'')
   \<and> final_outcome (main True blank_image (c_string ''a.b'') bytes_32768) = Inr Done
   \<and> changed_entries blank_image (final_image (main True blank_image (c_string ''a.b'') bytes_32768))
       = [0]
   \<and> drop 16 (directory_entry (final_image (main True blank_image (c_string ''a.b'') bytes_32768)) 0)
       = replicate 16 0"
proof -
  note b = blank_scan [OF a_b_dot, of True]
  have len: "length bytes_32768 = 32768" by (simp add: bytes_32768_def)
  have room: "lastUsedBlock True blank_image (c_string ''a.b'') + 16 < num_of_data_blocks"
    "lastLiveEntryIndex True blank_image (c_string ''a.b'') + 1 < num_of_FCBs"
    by (simp_all add: b num_of_data_blocks_eq num_of_FCBs_eq)
  have "final_outcome (main True blank_image (c_string ''a.b'') bytes_32768) = Inr Done"
    and "drop 16 (directory_entry (final_image (main True blank_image (c_string ''a.b'') bytes_32768))
            (lastLiveEntryIndex True blank_image (c_string ''a.b'') + 1)) = replicate 16 0"
    and "changed_entries blank_image (final_image (main True blank_image (c_string ''a.b'') bytes_32768))
          = [nat (lastLiveEntryIndex True blank_image (c_string ''a.b'') + 1)]"
    using two_extents_overwritten [OF a_b_dot b(1) len room] by blast+
  then show ?thesis using b len by simp
qed

lemma loop_state_128:
  assumes B: "1 \<le> B" "16 * (B + 1) + 127 < 2432"
  shows "changed_entries img (image_file (loop_state img nm ex F B src 128)) = []"
    and "FCB_buff (loop_state img nm ex F B src 128) = make_entry nm ex 0 128 (block_map B 8)"
    and "FCB_buff (loop_state img nm ex F B src 128) ! 15 = 0x80"
    and "used_FCBs (loop_state img nm ex F B src 128) = 1"
    and "written_records (loop_state img nm ex F B src 128) = 128"
proof -
  have "directory_entry (put_records B src 128 img) (int i) = directory_entry img (int i)"
    if "i < 128" for i
    using that B by (intro directory_entry_put_records) simp_all
  then have "changed_entries img (put_records B src 128 img) = []"
    by (rule changed_entries_none)
  then show "changed_entries img (image_file (loop_state img nm ex F B src 128)) = []"
    by (simp add: loop_state_def del: put_records.simps)
  show "FCB_buff (loop_state img nm ex F B src 128) = make_entry nm ex 0 128 (block_map B 8)"
    by (simp add: loop_state_def fcb_after_128 del: put_records.simps)
  then show "FCB_buff (loop_state img nm ex F B src 128) ! 15 = 0x80"
    by (simp add: make_entry_fields)
  show "used_FCBs (loop_state img nm ex F B src 128) = 1"
    "written_records (loop_state img nm ex F B src 128) = 128"
    by (simp_all add: loop_state_def del: put_records.simps)
qed

text \<open>The first 256 passes of the loop over a source of any length.\<close>

lemma state_after_256_take:
  "state_after_256 img nm ex F B (take (128 * 256) src) = state_after_256 img nm ex F B src"
  using put_records_cong [of 256 "take (128 * 256) src" src B img] chunk_take [of _ 256 src]
  by (simp add: state_after_256_def del: put_records.simps)

lemma write_loop_to_256:
  assumes len: "128 * 255 < length src"
    and cap: "F + 1 < 128" "16 * (B + 1) + 255 < 2432"
  shows "write_loop src (loop_state img nm ex F B src 0)
           = write_loop (drop (128 * 256) src) (state_after_256 img nm ex F B src)"
proof -
  have "128 * k < length src \<and> F + int k div 128 < 128 \<and> 16 * (B + 1) + int k < 2432"
    if "k < 255" for k
  proof -
    from that have "k \<le> 255" by simp
    with len cap capacity_below [of k 255 F B] that show ?thesis by auto
  qed
  then have "write_loop src (loop_state img nm ex F B src 0)
           = write_loop (drop (128 * 255) src) (loop_state img nm ex F B src 255)"
    by (intro write_loop_advance) simp_all
  also have "\<dots> = write_loop (drop 128 (drop (128 * 255) src)) (state_after_256 img nm ex F B src)"
  proof -
    have st: "loop_body (take 128 (drop (128 * 255) src)) (loop_state img nm ex F B src 255)
                = Some (state_after_256 img nm ex F B src)"
      using cap by (rule loop_body_255)
    have ne: "(take 128 (drop (128 * 255) src) = []) = False" using len by simp
    show ?thesis
      by (subst write_loop.simps) (simp only: st ne if_False option.case)
  qed
  also have "drop 128 (drop (128 * 255) src) = drop (128 * 256) src" by simp
  finally show ?thesis .
qed

lemma loop_first_256:
  fixes sc img fn src
  defines "F \<equiv> lastLiveEntryIndex sc img fn" and "B \<equiv> lastUsedBlock sc img fn"
    and "nm \<equiv> name (before_loop sc img fn)" and "ex \<equiv> extension (before_loop sc img fn)"
  assumes dot: "0x2E \<in> set fn"
    and len: "128 * 255 < length src"
    and cap: "F + 1 < 128" "16 * (B + 1) + 255 < 2432"
  shows "write_loop (take 32768 src) (before_loop sc img fn) = (True, state_after_256 img nm ex F B src)"
    and "write_loop src (before_loop sc img fn)
           = write_loop (drop 32768 src) (state_after_256 img nm ex F B src)"
proof -
  have b: "before_loop sc img fn = loop_state img nm ex F B s 0" for s
    unfolding F_def B_def nm_def ex_def using dot by (rule before_loop_eq)
  have "write_loop (take 32768 src) (loop_state img nm ex F B (take 32768 src) 0)
          = (True, state_after_256 img nm ex F B (take 32768 src))"
    using _ _ cap by (rule write_loop_256) (use len in simp_all)
  moreover have "state_after_256 img nm ex F B (take 32768 src) = state_after_256 img nm ex F B src"
    using state_after_256_take [of img nm ex F B src] by simp
  ultimately show "write_loop (take 32768 src) (before_loop sc img fn)
      = (True, state_after_256 img nm ex F B src)"
    by (simp only: b [of "take 32768 src"])
  show "write_loop src (before_loop sc img fn)
           = write_loop (drop 32768 src) (state_after_256 img nm ex F B src)"
    using write_loop_to_256 [OF len cap, of img nm ex] by (simp add: b [of src])
qed

text \<open>
  Claim C2, as amended. The loop stores the entry buffer and initialises it again when the
  256th record has been written, not at the 128th: one entry of this disk covers 16 blocks
  of 16 records. For every source with a new name that has at least 128 records, and room
  for 8 blocks: after the first 128 passes (the loop over the first 16384 bytes, from
  where the loop over the whole source goes on) no directory slot has changed, the buffer
  still holds the entry of the full first extent (record count 0x80, 8 block numbers) and
  the extent counter is 1. When the source has at least 256 records, with room for 16
  blocks and slot \<open>lastLiveEntryIndex + 1\<close> in the directory: after the 256th pass that
  slot, and no other, holds the entry with extent byte 1, record count 0x80 and 16 block
  numbers, and the buffer is initialised.
\<close>

theorem loop_stores_entry_at_256:
  assumes "0x2E \<in> set fn" and "\<not> duplicateFound sc img fn"
    and "128 * 127 < length src"
    and "lastUsedBlock sc img fn + 8 < num_of_data_blocks"
  shows "fst (write_loop (take 16384 src) (before_loop sc img fn))
    \<and> write_loop src (before_loop sc img fn)
        = write_loop (drop 16384 src) (snd (write_loop (take 16384 src) (before_loop sc img fn)))
    \<and> changed_entries img (image_file (snd (write_loop (take 16384 src) (before_loop sc img fn)))) = []
    \<and> FCB_buff (snd (write_loop (take 16384 src) (before_loop sc img fn)))
        = make_entry (name (before_loop sc img fn)) (extension (before_loop sc img fn)) 0 128
            (block_map (lastUsedBlock sc img fn) 8)
    \<and> used_FCBs (snd (write_loop (take 16384 src) (before_loop sc img fn))) = 1
    \<and> written_records (snd (write_loop (take 16384 src) (before_loop sc img fn))) = 128
    \<and> (128 * 255 < length src \<and> lastUsedBlock sc img fn + 16 < num_of_data_blocks
         \<and> lastLiveEntryIndex sc img fn + 1 < num_of_FCBs \<longrightarrow>
        fst (write_loop (take 32768 src) (before_loop sc img fn))
        \<and> write_loop src (before_loop sc img fn)
            = write_loop (drop 32768 src) (snd (write_loop (take 32768 src) (before_loop sc img fn)))
        \<and> changed_entries img (image_file (snd (write_loop (take 32768 src) (before_loop sc img fn))))
            = [nat (lastLiveEntryIndex sc img fn + 1)]
        \<and> directory_entry (image_file (snd (write_loop (take 32768 src) (before_loop sc img fn))))
              (lastLiveEntryIndex sc img fn + 1)
            = make_entry (name (before_loop sc img fn)) (extension (before_loop sc img fn)) 1 128
                (block_map (lastUsedBlock sc img fn) 16)
        \<and> FCB_buff (snd (write_loop (take 32768 src) (before_loop sc img fn)))
            = make_entry (name (before_loop sc img fn)) (extension (before_loop sc img fn)) 0 0 (\<lambda>j. 0)
        \<and> used_FCBs (snd (write_loop (take 32768 src) (before_loop sc img fn))) = 2
        \<and> written_records (snd (write_loop (take 32768 src) (before_loop sc img fn))) = 256)"
proof -
  let ?F = "lastLiveEntryIndex sc img fn" and ?B = "lastUsedBlock sc img fn"
  let ?nm = "name (before_loop sc img fn)" and ?ex = "extension (before_loop sc img fn)"
  let ?S = "state_after_256 img ?nm ?ex ?F ?B src"
  let ?L = "loop_state img ?nm ?ex ?F ?B src 128"
  let ?b = "before_loop sc img fn"
  have F: "- 1 \<le> ?F" "?F < 128" and B: "1 \<le> ?B" "16 * (?B + 1) + 127 < 2432"
    using assms before_loop_facts(4,5,6) [OF assms(1)]
    by (simp_all add: num_of_data_blocks_eq)
  have h: "write_loop (take 16384 src) ?b = (True, ?L)"
    using assms(1,3) F(2) B(2) by (rule loop_128_of_256(1))
  have g: "write_loop src ?b = write_loop (drop 16384 src) ?L"
    using assms(1,3) F(2) B(2) by (rule loop_128_of_256(2))
  note a = loop_state_128 [OF B, of img ?nm ?ex ?F src]
  have p1: "fst (write_loop (take 16384 src) ?b)"
    "write_loop src ?b = write_loop (drop 16384 src) (snd (write_loop (take 16384 src) ?b))"
    unfolding h using g by simp_all
  have p2: "changed_entries img (image_file (snd (write_loop (take 16384 src) ?b))) = []"
    "FCB_buff (snd (write_loop (take 16384 src) ?b)) = make_entry ?nm ?ex 0 128 (block_map ?B 8)"
    "used_FCBs (snd (write_loop (take 16384 src) ?b)) = 1"
    "written_records (snd (write_loop (take 16384 src) ?b)) = 128"
    unfolding h using a by simp_all
  have p3: "fst (write_loop (take 32768 src) ?b)
        \<and> write_loop src ?b = write_loop (drop 32768 src) (snd (write_loop (take 32768 src) ?b))
        \<and> changed_entries img (image_file (snd (write_loop (take 32768 src) ?b))) = [nat (?F + 1)]
        \<and> directory_entry (image_file (snd (write_loop (take 32768 src) ?b))) (?F + 1)
            = make_entry ?nm ?ex 1 128 (block_map ?B 16)
        \<and> FCB_buff (snd (write_loop (take 32768 src) ?b)) = make_entry ?nm ?ex 0 0 (\<lambda>j. 0)
        \<and> used_FCBs (snd (write_loop (take 32768 src) ?b)) = 2
        \<and> written_records (snd (write_loop (take 32768 src) ?b)) = 256"
    if len: "128 * 255 < length src" and room: "?B + 16 < num_of_data_blocks"
      and slot: "?F + 1 < num_of_FCBs"
  proof -
    have F': "?F + 1 < 128" and B': "16 * (?B + 1) + 255 < 2432"
      using room slot by (simp_all add: num_of_data_blocks_eq num_of_FCBs_eq)
    have dead: "\<not> live img (?F + 1)"
      using dead_above [OF assms(1), of sc img "?F + 1"] F' by simp
    have w: "write_loop (take 32768 src) ?b = (True, ?S)"
      using assms(1) len F' B' by (rule loop_first_256(1))
    have v: "write_loop src ?b = write_loop (drop 32768 src) ?S"
      using assms(1) len F' B' by (rule loop_first_256(2))
    note d = directory_after_256 [OF F(1) F' B(1) B' dead, of ?nm ?ex src]
    have s: "FCB_buff ?S = make_entry ?nm ?ex 0 0 (\<lambda>j. 0)" "written_records ?S = 256"
      "used_FCBs ?S = 2"
      by (simp_all add: state_after_256_def block_map_0)
    show ?thesis
      unfolding w using v d(1,2) s by simp
  qed
  show ?thesis
    using p1 p2 p3 by (intro conjI impI) blast+
qed

theorem loop_stores_entry_at_256_witness:
  "128 * 255 < length bytes_32769 \<and> \<not> duplicateFound True blank_image (c_string ''a.b'')
   \<and> changed_entries blank_image
        (image_file (snd (write_loop (take 16384 bytes_32769)
                            (before_loop True blank_image (c_string ''a.b''))))) = []
   \<and> changed_entries blank_image
        (image_file (snd (write_loop (take 32768 bytes_32769)
                            (before_loop True blank_image (c_string ''a.b'')))))
       = [0]
   \<and> write_loop bytes_32769 (before_loop True blank_image (c_string ''a.b''))
       = write_loop (drop 32768 bytes_32769)
           (snd (write_loop (take 32768 bytes_32769) (before_loop True blank_image (c_string ''a.b''))))"
proof -
  note b = blank_scan [OF a_b_dot, of True]
  have len: "128 * 127 < length bytes_32769" "128 * 255 < length bytes_32769"
    by (simp_all add: bytes_32769_def)
  have room: "lastUsedBlock True blank_image (c_string ''a.b'') + 8 < num_of_data_blocks"
    "lastUsedBlock True blank_image (c_string ''a.b'') + 16 < num_of_data_blocks"
    "lastLiveEntryIndex True blank_image (c_string ''a.b'') + 1 < num_of_FCBs"
    by (simp_all add: b num_of_data_blocks_eq num_of_FCBs_eq)
  have "changed_entries blank_image
        (image_file (snd (write_loop (take 16384 bytes_32769)
                            (before_loop True blank_image (c_string ''a.b''))))) = []"
    and "changed_entries blank_image
        (image_file (snd (write_loop (take 32768 bytes_32769)
                            (before_loop True blank_image (c_string ''a.b'')))))
       = [nat (lastLiveEntryIndex True blank_image (c_string ''a.b'') + 1)]"
    and "write_loop bytes_32769 (before_loop True blank_image (c_string ''a.b''))
       = write_loop (drop 32768 bytes_32769)
           (snd (write_loop (take 32768 bytes_32769) (before_loop True blank_image (c_string ''a.b''))))"
    using loop_stores_entry_at_256 [OF a_b_dot b(1) len(1) room(1)] len(2) room(2,3) by blast+
  then show ?thesis using b len by simp
qed

theorem no_flush_at_128_counterexample:
  "fst (write_loop bytes_16384 (before_loop True blank_image (c_string ''a.b'')))
   \<and> written_records (snd (write_loop bytes_16384 (before_loop True blank_image (c_string ''a.b''))))
       = 128
   \<and> changed_entries blank_image
        (image_file (snd (write_loop bytes_16384 (before_loop True blank_image (c_string ''a.b'')))))
       = []
   \<and> FCB_buff (snd (write_loop bytes_16384 (before_loop True blank_image (c_string ''a.b'')))) ! 15
       = 0x80"
proof -
  note b = blank_scan [OF a_b_dot, of True]
  have len: "128 * 127 < length bytes_16384" "take 16384 bytes_16384 = bytes_16384"
    by (simp_all add: bytes_16384_def)
  have "write_loop (take 16384 bytes_16384) (before_loop True blank_image (c_string ''a.b''))
      = (True, loop_state blank_image (name (before_loop True blank_image (c_string ''a.b'')))
                 (extension (before_loop True blank_image (c_string ''a.b''))) (- 1) 1 bytes_16384 128)"
    using loop_128_of_256(1) [OF a_b_dot len(1), of True blank_image] by (simp add: b)
  then show ?thesis
    using loop_state_128 [of 1 blank_image _ _ "- 1" bytes_16384]
    by (simp add: len(2))
qed

section \<open>Reading the records back\<close>

lemma record_offset_mono:
  assumes "0 \<le> r" "r < r'" "r' \<le> 4096"
  shows "convert_addr (head_addr_of_record r) + 128 \<le> convert_addr (head_addr_of_record r')"
proof -
  have "r div 2 \<le> r' div 2" using assms by (intro zdiv_mono1) simp_all
  with assms show ?thesis by (simp add: record_offset)
qed

lemma record_at_put_records:
  assumes "k < n" "0 \<le> B" "16 * (B + 1) + int n \<le> 4096"
  shows "record_at (put_records B src n img) (16 * (B + 1) + int k) = chunk src k"
  using assms(1,3)
proof (induction n)
  case 0
  then show ?case by simp
next
  case (Suc n)
  show ?case
  proof (cases "k = n")
    case True
    then show ?thesis
      by (simp add: record_at_def RPD_def file_read_write_same length_chunk)
  next
    case False
    with Suc.prems have k: "k < n" by simp
    have "convert_addr (head_addr_of_record (16 * (B + 1) + int k)) + 128
            \<le> convert_addr (head_addr_of_record (16 * (B + 1) + int n))"
      using k assms(2) Suc.prems by (intro record_offset_mono) simp_all
    then have "record_at (put_records B src (Suc n) img) (16 * (B + 1) + int k)
                 = record_at (put_records B src n img) (16 * (B + 1) + int k)"
      by (simp add: record_at_def RPD_def file_read_write_other)
    with Suc k show ?thesis by simp
  qed
qed

lemma concat_full_chunks:
  "concat (map (\<lambda>k. take 128 (drop (128 * k) src)) [0..<n]) = take (128 * n) src"
proof (induction n)
  case 0
  show ?case by simp
next
  case (Suc n)
  have "take (128 * n) src @ take 128 (drop (128 * n) src) = take (128 * n + 128) src"
    by (simp add: take_add)
  with Suc show ?case by (simp add: add.commute)
qed

lemma chunk_full: "128 * Suc k \<le> length src \<Longrightarrow> chunk src k = take 128 (drop (128 * k) src)"
  by (simp add: chunk_def)

lemma concat_chunks:
  assumes "length src \<le> 128 * N" "N = 0 \<or> 128 * (N - 1) < length src"
  shows "concat (map (chunk src) [0..<N]) = src @ replicate (128 * N - length src) 0x1A"
proof (cases N)
  case 0
  with assms show ?thesis by simp
next
  case (Suc M)
  have full: "map (chunk src) [0..<M] = map (\<lambda>k. take 128 (drop (128 * k) src)) [0..<M]"
    using assms(2) Suc by (intro map_cong) (simp_all add: chunk_full)
  have last: "chunk src M = drop (128 * M) src @ replicate (128 * N - length src) 0x1A"
    using assms Suc by (simp add: chunk_def)
  have "concat (map (chunk src) [0..<N])
          = take (128 * M) src @ drop (128 * M) src @ replicate (128 * N - length src) 0x1A"
    by (simp add: Suc full concat_full_chunks last [unfolded Suc])
  then show ?thesis by simp
qed

text \<open>
  Below 256 records the data survive: every record of the source is in the final image at
  its place behind the last used block, the records in order are the source followed by
  the fill bytes, and the one entry of the file names the blocks they are in.
\<close>

lemma small_file_round_trip:
  fixes sc img fn src N
  defines "F \<equiv> lastLiveEntryIndex sc img fn" and "B \<equiv> lastUsedBlock sc img fn"
  assumes dot: "0x2E \<in> set fn" and nd: "\<not> duplicateFound sc img fn"
    and N: "N \<le> 255" and len: "length src \<le> 128 * N" "N = 0 \<or> 128 * (N - 1) < length src"
    and cap: "N = 0 \<or> F + int (N - 1) div 128 < 128 \<and> 16 * (B + 1) + int (N - 1) < 2432"
    and slot: "F + 1 + (int N div 128) mod 2 < 128"
  shows "concat (map (\<lambda>k. record_at (final_image (main sc img fn src)) (16 * (B + 1) + int k)) [0..<N])
           = src @ replicate (128 * N - length src) 0x1A"
    and "drop 16 (directory_entry (final_image (main sc img fn src)) (F + 1 + (int N div 128) mod 2))
           = map (block_map B ((int N + 15) div 16)) [0..<16]"
proof -
  let ?k = "F + 1 + (int N div 128) mod 2"
  let ?nm = "name (before_loop sc img fn)" and ?ex = "extension (before_loop sc img fn)"
  have fi: "final_image (main sc img fn src)
           = file_write (put_records B src N img) (convert_addr (head_addr_of_FCB ?k))
               (fcb_after ?nm ?ex B N)"
    unfolding F_def B_def
    using dot nd N len cap [unfolded F_def B_def] by (rule main_small(2))
  have F: "- 1 \<le> F" and B: "1 \<le> B" "B \<le> 255"
    unfolding F_def B_def using before_loop_facts [OF dot] lastUsedBlock_le [OF dot] by simp_all
  have md: "0 \<le> (int N div 128) mod 2" by simp
  have k: "0 \<le> ?k" using F md by linarith
  have room: "16 * (B + 1) + int N \<le> 4096" using cap B by auto
  have rec: "record_at (final_image (main sc img fn src)) (16 * (B + 1) + int j) = chunk src j"
    if "j < N" for j
  proof -
    have "convert_addr (head_addr_of_FCB ?k) + 32
            \<le> convert_addr (head_addr_of_record (16 * (B + 1) + int j))"
      using k slot B room that by (intro directory_below_records) simp_all
    then have "record_at (final_image (main sc img fn src)) (16 * (B + 1) + int j)
                 = record_at (put_records B src N img) (16 * (B + 1) + int j)"
      unfolding fi by (simp add: record_at_def file_read_write_other fcb_after_basic)
    also have "\<dots> = chunk src j"
      using that B(1) room by (intro record_at_put_records) simp_all
    finally show ?thesis .
  qed
  have recs: "map (\<lambda>k. record_at (final_image (main sc img fn src)) (16 * (B + 1) + int k)) [0..<N]
          = map (chunk src) [0..<N]"
    using rec by (intro map_cong) simp_all
  show "concat (map (\<lambda>k. record_at (final_image (main sc img fn src)) (16 * (B + 1) + int k)) [0..<N])
           = src @ replicate (128 * N - length src) 0x1A"
    unfolding recs using len by (rule concat_chunks)
  have d: "directory_entry (final_image (main sc img fn src)) ?k = fcb_after ?nm ?ex B N"
    unfolding F_def B_def
    using dot nd N len cap [unfolded F_def B_def] slot [unfolded F_def]
    by (rule main_small_directory(1))
  show "drop 16 (directory_entry (final_image (main sc img fn src)) ?k)
           = map (block_map B ((int N + 15) div 16)) [0..<16]"
    unfolding d by (simp add: fcb_after_def make_entry_map del: upt_rec_numeral)
qed

section \<open>Sources of more than 256 records\<close>

lemma file_write_commute:
  "off + int (length a) \<le> off' \<or> off' + int (length b) \<le> off \<Longrightarrow>
     file_write (file_write f off a) off' b = file_write (file_write f off' b) off a"
  by (rule ext) (auto simp add: file_write_def)

lemma entry_update_257:
  "(make_entry nm ex 0 0 (\<lambda>j. 0))[12 := 2, 15 := 1, 16 := v]
     = make_entry nm ex 2 1 ((\<lambda>j. 0)(0 := v))"
  using entry_update_12_15_map [of 0 nm ex 0 0 "\<lambda>j. 0" 2 1 v] by simp

lemma loop_body_256:
  assumes capF: "F + 2 < 128" and capB: "16 * (B + 1) + 256 < 2432"
  shows "loop_body (take 128 (drop (128 * 256) src)) (state_after_256 img nm ex F B src)
           = Some (state_after_257 img nm ex F B src)"
proof -
  show ?thesis
    unfolding loop_body_def state_after_257_def
    using capF capB
    apply (subst Let_def)
    apply (simp add: state_after_256_def fread_into_fill num_of_FCBs_eq num_of_data_blocks_eq RPD_def
        del: put_records.simps)
    apply (subst Let_def)
    apply (simp add: save_record_def length_chunk del: put_records.simps)
    apply ((subst Let_def)?)
    apply (simp add: BPS_def init_record_buf_eq block_map_0 chunk_def entry_update_257
         del: put_records.simps)
    done
qed

lemma write_loop_257:
  assumes len: "128 * 256 < length src" "length src \<le> 128 * 257"
    and cap: "F + 2 < 128" "16 * (B + 1) + 256 < 2432"
  shows "write_loop src (loop_state img nm ex F B src 0) = (True, state_after_257 img nm ex F B src)"
proof -
  have cap': "F + 1 < 128" "16 * (B + 1) + 255 < 2432" using cap by simp_all
  have "128 * k < length src \<and> F + int k div 128 < 128 \<and> 16 * (B + 1) + int k < 2432"
    if "k < 255" for k
  proof -
    from that have "k \<le> 255" by simp
    with len cap' capacity_below [of k 255 F B] that show ?thesis by auto
  qed
  then have "write_loop src (loop_state img nm ex F B src 0)
           = write_loop (drop (128 * 255) src) (loop_state img nm ex F B src 255)"
    by (intro write_loop_advance) simp_all
  also have "\<dots> = write_loop (drop 128 (drop (128 * 255) src)) (state_after_256 img nm ex F B src)"
  proof -
    have st: "loop_body (take 128 (drop (128 * 255) src)) (loop_state img nm ex F B src 255)
                = Some (state_after_256 img nm ex F B src)"
      using cap' by (rule loop_body_255)
    have ne: "(take 128 (drop (128 * 255) src) = []) = False" using len by simp
    show ?thesis
      by (subst write_loop.simps) (simp only: st ne if_False option.case)
  qed
  also have "drop 128 (drop (128 * 255) src) = drop (128 * 256) src" by simp
  also have "write_loop (drop (128 * 256) src) (state_after_256 img nm ex F B src)
      = write_loop (drop 128 (drop (128 * 256) src)) (state_after_257 img nm ex F B src)"
  proof -
    have st: "loop_body (take 128 (drop (128 * 256) src)) (state_after_256 img nm ex F B src)
                = Some (state_after_257 img nm ex F B src)"
      using cap by (rule loop_body_256)
    have ne: "(take 128 (drop (128 * 256) src) = []) = False" using len by simp
    show ?thesis
      by (subst write_loop.simps) (simp only: st ne if_False option.case)
  qed
  also have "\<dots> = (True, state_after_257 img nm ex F B src)"
    using len by (simp add: write_loop_Nil)
  finally show ?thesis .
qed

lemma image_after_257:
  assumes F: "- 1 \<le> F" "F + 1 < 128" and B: "1 \<le> B" "16 * (B + 1) + 256 < 2432"
  shows "image_file (save_FCB (state_after_257 img nm ex F B src) (F + 1))
           = file_write (put_records B src 257 img) (convert_addr (head_addr_of_FCB (F + 1)))
               (make_entry nm ex 2 1 ((\<lambda>j. 0)(0 := word_of_int (B + 17))))"
proof -
  let ?fo = "convert_addr (head_addr_of_FCB (F + 1))"
  let ?ro = "convert_addr (head_addr_of_record (RPD * (B + 1) + 256))"
  let ?P = "put_records B src 256 img"
  have below: "?fo + 32 \<le> ?ro"
    using F B by (intro directory_below_records) (simp_all add: RPD_def)
  have P: "put_records B src 257 img = file_write ?P ?ro (chunk src 256)"
    using put_records.simps(2) [of B src 256 img] by simp
  have "file_write (file_write ?P ?fo (fcb_after nm ex B 256)) ?ro (chunk src 256)
      = file_write (file_write ?P ?ro (chunk src 256)) ?fo (fcb_after nm ex B 256)"
    using below by (intro file_write_commute) (simp add: fcb_after_basic)
  then show ?thesis
    by (simp add: save_FCB_def state_after_257_def state_after_256_def P length_make_entry
        file_write_twice fcb_after_basic del: put_records.simps)
qed

lemma main_257:
  fixes sc img fn src
  defines "F \<equiv> lastLiveEntryIndex sc img fn" and "B \<equiv> lastUsedBlock sc img fn"
    and "nm \<equiv> name (before_loop sc img fn)" and "ex \<equiv> extension (before_loop sc img fn)"
  assumes dot: "0x2E \<in> set fn" and nd: "\<not> duplicateFound sc img fn"
    and len: "128 * 256 < length src" "length src \<le> 128 * 257"
    and cap: "F + 2 < 128" "16 * (B + 1) + 256 < 2432"
  shows "final_outcome (main sc img fn src) = Inr Done"
    and "changed_entries img (final_image (main sc img fn src)) = [nat (F + 1)]"
    and "directory_entry (final_image (main sc img fn src)) (F + 1)
           = make_entry nm ex 2 1 ((\<lambda>j. 0)(0 := word_of_int (B + 17)))"
proof -
  let ?S = "state_after_257 img nm ex F B src"
  let ?e = "make_entry nm ex 2 1 ((\<lambda>j. 0)(0 := word_of_int (B + 17)))"
  have b: "before_loop sc img fn = loop_state img nm ex F B src 0"
    unfolding F_def B_def nm_def ex_def using dot by (rule before_loop_eq)
  have F: "- 1 \<le> F" "F + 1 < 128" and B: "1 \<le> B"
    unfolding F_def B_def using before_loop_facts(4,5) [OF dot] cap(1) [unfolded F_def]
    by simp_all
  have dead: "\<not> live img (F + 1)"
    unfolding F_def using dead_above [OF dot, of sc img "F + 1"] F(2) by (simp add: F_def)
  have w: "write_loop src (before_loop sc img fn) = (True, ?S)"
    unfolding b using len cap by (rule write_loop_257)
  have sel: "last_living_FCB_num ?S + 1 + used_FCBs ?S smod 2 = F + 1"
    by (simp add: state_after_257_def)
  have m: "main sc img fn src = Inr (Done, save_FCB ?S (F + 1))"
    by (simp add: main_eq [OF dot nd] w sel)
  have fi: "final_image (main sc img fn src)
      = file_write (put_records B src 257 img) (convert_addr (head_addr_of_FCB (F + 1))) ?e"
    using image_after_257 [OF F B cap(2), of img nm ex src] by (simp add: m final_image_def)
  have k: "0 \<le> F + 1" using F by simp
  have room: "16 * (B + 1) + int 257 \<le> 4096" using cap by simp
  show "final_outcome (main sc img fn src) = Inr Done"
    by (simp add: m final_outcome_def)
  show "changed_entries img (final_image (main sc img fn src)) = [nat (F + 1)]"
    unfolding fi using k F(2) B room _ _ dead
    by (rule final_directory(2)) (simp_all add: length_make_entry make_entry_fields)
  show "directory_entry (final_image (main sc img fn src)) (F + 1) = ?e"
    unfolding fi using k F(2) B room _ _ dead
    by (rule final_directory(1)) (simp_all add: length_make_entry make_entry_fields)
qed

text \<open>
  Claim C5. Reading back the records of the entry chain is to give the source again. For
  a source of 32769 bytes (257 records) on the empty disk the run reports success, and the
  directory of the image it leaves has one changed slot, slot 0: the entry stored there at
  the 256th record was overwritten by the final \<open>save_FCB\<close>. That entry has extent byte
  2, record count 1 and a map that names block 18 only, so it refers to the last record;
  the 256 records in blocks 2 to 17 are named by no entry.
\<close>

theorem large_file_entry_lost:
  "final_outcome (main True blank_image (c_string ''a.b'') bytes_32769) = Inr Done
   \<and> changed_entries blank_image (final_image (main True blank_image (c_string ''a.b'') bytes_32769))
       = [0]
   \<and> directory_entry (final_image (main True blank_image (c_string ''a.b'') bytes_32769)) 0 ! 12 = 2
   \<and> directory_entry (final_image (main True blank_image (c_string ''a.b'') bytes_32769)) 0 ! 15 = 1
   \<and> drop 16 (directory_entry (final_image (main True blank_image (c_string ''a.b'') bytes_32769)) 0)
       = [18, 0, 0, 0, 0, 0, 0, 0, 0, 0, 0, 0, 0, 0, 0, 0]"
proof -
  note b = blank_scan [OF a_b_dot, of True]
  have len: "128 * 256 < length bytes_32769" "length bytes_32769 \<le> 128 * 257"
    by (simp_all add: bytes_32769_def)
  have cap: "lastLiveEntryIndex True blank_image (c_string ''a.b'') + 2 < 128"
    "16 * (lastUsedBlock True blank_image (c_string ''a.b'') + 1) + 256 < 2432"
    by (simp_all add: b)
  note r = main_257 [OF a_b_dot b(1) len cap]
  have m: "map ((\<lambda>j. 0)(0 := (18::byte))) [0..<16] = [18, 0, 0, 0, 0, 0, 0, 0, 0, 0, 0, 0, 0, 0, 0, 0]"
    by (simp add: upt_conv_Cons)
  show ?thesis
    using r by (simp add: b make_entry_fields make_entry_map m del: upt_rec_numeral)
qed

end
